theory Spec2Isabelle
  imports Main "HOL-Library.Word" "HOL-Library.Sublist" "HOL-Library.List_Lexorder" "HOL-Library.Char_ord"
begin

section \<open>Tokens, errors and the lexer interface\<close>

text \<open>
  Modelled from the spec: the \<^verbatim>\<open>Lexer\<close> that \<^verbatim>\<open>torch/csrc/jit/import_source.cpp\<close> reads
  from is outside the file. The spec speaks of "a positional token stream" on which
  "parsing proceeds strictly left-to-right", of statements that end with "a line
  terminator" and of an import statement as "all tokens up to (not including) the line
  terminator". The file uses four operations of the lexer: \<^verbatim>\<open>cur\<close>, \<^verbatim>\<open>next\<close>,
  \<^verbatim>\<open>nextIf\<close> and \<^verbatim>\<open>expect\<close>. A token has a kind and the text it spans; a lexer state
  is the list of tokens still to be read; the empty list is the end of input, where the
  source sees a token of kind \<^verbatim>\<open>TK_EOF\<close> and \<^verbatim>\<open>next\<close> stays on it.
\<close>

datatype kind =
    TK_IDENT | TK_NUMBER | TK_NEWLINE | TK_IMPORT | TK_DEF | TK_CLASS_DEF
  | TK_INDENT | TK_DEDENT | TK_CHAR char | TK_OTHER nat

datatype token = Token (tok_kind: kind) (tok_text: string)

type_synonym lexer = "token list"

text \<open>
  Every exception of the file is an \<^verbatim>\<open>ErrorReport\<close> carrying a message, or a failed
  \<^verbatim>\<open>AT_ASSERT\<close>. The constructors name the throw sites:
  \<^item> \<open>ExpectedToken\<close>: \<^verbatim>\<open>L.expect(kind)\<close> met another token;
  \<^item> \<open>MalformedHeader\<close>: the two reports of \<^verbatim>\<open>parseVersionNumber\<close>;
  \<^item> \<open>InvalidConstantSpecifier\<close>, \<open>ConstantIndexOutOfRange\<close>: the two reports of
    \<^verbatim>\<open>ConstantTableValue::attr\<close>, the second with the offset and the table size;
  \<^item> \<open>AssertFailure\<close>: \<^verbatim>\<open>AT_ASSERT(!str.empty())\<close> in \<^verbatim>\<open>parseImports\<close>;
  \<^item> \<open>External\<close>: raised by a collaborator (parser, compiler, import callback).
\<close>

datatype error =
    ExpectedToken kind
  | MalformedHeader string
  | InvalidConstantSpecifier string
  | ConstantIndexOutOfRange int nat
  | AssertFailure
  | External string

definition expect :: "kind \<Rightarrow> lexer \<Rightarrow> error + token \<times> lexer" where
  "expect k L =
     (case L of
        [] \<Rightarrow> Inl (ExpectedToken k)
      | t # ts \<Rightarrow> if tok_kind t = k then Inr (t, ts) else Inl (ExpectedToken k))"

definition nextIf :: "kind \<Rightarrow> lexer \<Rightarrow> bool \<times> lexer" where
  "nextIf k L =
     (case L of
        [] \<Rightarrow> (False, L)
      | t # ts \<Rightarrow> if tok_kind t = k then (True, ts) else (False, L))"

section \<open>The constant-table accessor\<close>

subsection \<open>\<^verbatim>\<open>strtoll\<close> in base 10\<close>

text \<open>
  \<^verbatim>\<open>std::strtoll(nptr, &end, 10)\<close> belongs to the C library. Its behaviour in the "C"
  locale is: skip white space, read an optional sign, read the longest run of decimal
  digits; without a digit nothing is converted, the value is 0 and \<^verbatim>\<open>end\<close> is
  \<^verbatim>\<open>nptr\<close>; a value outside \<^verbatim>\<open>long long\<close> is clamped to \<^verbatim>\<open>LLONG_MIN\<close> or
  \<^verbatim>\<open>LLONG_MAX\<close>. The argument is the text the pointer sees; the second component of
  the result is the text \<^verbatim>\<open>end\<close> points at.
\<close>

definition isspace :: "char \<Rightarrow> bool" where
  "isspace c = (let n = of_char c :: nat in n = 32 \<or> (9 \<le> n \<and> n \<le> 13))"

definition isdigit :: "char \<Rightarrow> bool" where
  "isdigit c = (let n = of_char c :: nat in 48 \<le> n \<and> n \<le> 57)"

definition digit_value :: "char \<Rightarrow> int" where
  "digit_value c = int (of_char c) - 48"

definition LLONG_MAX :: int where
  "LLONG_MAX = 2 ^ 63 - 1"

definition LLONG_MIN :: int where
  "LLONG_MIN = - (2 ^ 63)"

definition digits_value :: "string \<Rightarrow> int" where
  "digits_value ds = foldl (\<lambda>a c. 10 * a + digit_value c) 0 ds"

definition read_sign :: "string \<Rightarrow> bool \<times> string" where
  "read_sign s =
     (case s of
        [] \<Rightarrow> (False, s)
      | c # cs \<Rightarrow> if c = CHR ''-'' then (True, cs)
                 else if c = CHR ''+'' then (False, cs)
                 else (False, s))"

definition strtoll :: "string \<Rightarrow> int \<times> string" where
  "strtoll nptr =
     (let (neg, s2) = read_sign (dropWhile isspace nptr);
          ds = takeWhile isdigit s2;
          v = digits_value ds
      in if ds = [] then (0, nptr)
         else (if neg then max LLONG_MIN (- v) else min LLONG_MAX v,
               dropWhile isdigit s2))"

text \<open>
  \<^verbatim>\<open>*end\<close>: the character \<^verbatim>\<open>end\<close> points at, which is the terminating NUL when the
  text is exhausted.
\<close>

definition deref :: "string \<Rightarrow> char" where
  "deref s = (case s of [] \<Rightarrow> CHR 0x00 | c # _ \<Rightarrow> c)"

subsection \<open>Symbolic values and the graph\<close>

text \<open>
  A qualified name is the list of its segments. A class type carries its qualified name
  and the address of its compilation unit. Versions are \<^verbatim>\<open>size_t\<close>: natural numbers
  below \<open>2 ^ 64\<close>.
\<close>

type_synonym qualified_name = "string list"

datatype class_type = ClassType (qualname: qualified_name) (compilation_unit: nat)

datatype ivalue = Double_infinity | Double_quiet_NaN

datatype 'c SugaredValue =
    BuiltinModule string nat
  | OpsValue nat
  | ConstantValue ivalue
  | ClassNamespaceValue qualified_name
  | ClassValue class_type
  | ConstantTableValue "'c list"
  | ForkValue
  | AnnotateValue
  | SimpleValue nat

text \<open>
  Modelled from the spec: \<^verbatim>\<open>Graph::insertConstant\<close> is outside the file. The spec says the
  accessor "materializes the indexed payload as an inlined constant node in the target IR
  and returns it". A graph is the list of its nodes; the new node goes to the end and the
  \<^verbatim>\<open>Value*\<close> returned is its position.
\<close>

datatype 'c node = Constant 'c

type_synonym 'c graph = "'c node list"

definition insertConstant :: "'c graph \<Rightarrow> 'c \<Rightarrow> nat \<times> 'c graph" where
  "insertConstant g c = (length g, g @ [Constant c])"

subsection \<open>\<^verbatim>\<open>ConstantTableValue::attr\<close>\<close>

text \<open>
  \<^verbatim>\<open>field_s + 1\<close> is the text after the first character. For the empty string the
  pointer is past the terminator and the size check rejects the string whatever
  \<^verbatim>\<open>strtoll\<close> read; the model reads the empty text there. \<^verbatim>\<open>size_t(offset)\<close> is
  evaluated only for \<open>0 \<le> offset\<close>, where the cast changes nothing.
\<close>

definition ConstantTableValue_attr ::
  "'c list \<Rightarrow> 'c graph \<Rightarrow> string \<Rightarrow> error + 'c SugaredValue \<times> 'c graph" where
  "ConstantTableValue_attr constants g field =
     (let (offset, end) = strtoll (drop 1 field)
      in if length field < 2 \<or> deref end \<noteq> CHR 0x00
           then Inl (InvalidConstantSpecifier field)
         else if offset < 0 \<or> nat offset \<ge> length constants
           then Inl (ConstantIndexOutOfRange offset (length constants))
         else (let (v, g') = insertConstant g (constants ! nat offset)
               in Inr (SimpleValue v, g')))"

text \<open>
  The grammar \<^verbatim>\<open>strtoll\<close> accepts in full: white space, an optional sign, one or more
  decimal digits and nothing after them.
\<close>

definition signed_decimal :: "string \<Rightarrow> bool" where
  "signed_decimal s =
     (let r = dropWhile isspace s;
          d = (case r of
                 [] \<Rightarrow> []
               | c # cs \<Rightarrow> if c = CHR ''-'' \<or> c = CHR ''+'' then cs else r)
      in d \<noteq> [] \<and> list_all isdigit d)"

text \<open>The decimal numeral of a natural number, as the serializer writes \<^verbatim>\<open>c<k>\<close>.\<close>

fun decimal :: "nat \<Rightarrow> string" where
  "decimal n =
     (if n < 10 then [char_of (48 + n)]
      else decimal (n div 10) @ [char_of (48 + n mod 10)])"

declare decimal.simps [simp del]


section \<open>The version gate\<close>

text \<open>
  \<^verbatim>\<open>parseVersionNumber\<close> builds a \<^verbatim>\<open>Const\<close> tree view from the text of the number token
  and asks it \<^verbatim>\<open>isIntegral()\<close> and \<^verbatim>\<open>asIntegral()\<close>. \<^verbatim>\<open>Const\<close> is declared in
  \<^verbatim>\<open>tree_views.h\<close>, outside the file, so both are parameters: \<open>isIntegral\<close> on the text,
  and \<open>asIntegral\<close> giving the \<^verbatim>\<open>int64_t\<close> read from it, a 64-bit word that \<open>sint\<close>
  reads. \<^verbatim>\<open>size_t(x)\<close> keeps the bits of the \<^verbatim>\<open>int64_t\<close>; \<open>unat\<close> reads them as the
  \<^verbatim>\<open>size_t\<close>. The four \<^verbatim>\<open>expect\<close> calls come first; the name and the literal are checked
  after them.
\<close>

text \<open>
  The kind the first failing \<^verbatim>\<open>expect\<close> call of a sequence asks for: the first of the
  expected kinds that the token at its place does not have. The first statement passes
  the four \<^verbatim>\<open>expect\<close> calls of \<^verbatim>\<open>parseVersionNumber\<close> when there is none.
\<close>

fun first_mismatch :: "kind list \<Rightarrow> lexer \<Rightarrow> kind option" where
  "first_mismatch [] L = None"
| "first_mismatch (k # ks) [] = Some k"
| "first_mismatch (k # ks) (t # ts) =
     (if tok_kind t = k then first_mismatch ks ts else Some k)"

definition version_statement_kinds :: "kind list" where
  "version_statement_kinds = [TK_IDENT, TK_CHAR CHR ''='', TK_NUMBER, TK_NEWLINE]"

definition parseVersionNumber ::
  "(string \<Rightarrow> bool) \<Rightarrow> (string \<Rightarrow> 64 word) \<Rightarrow> lexer \<Rightarrow> error + nat \<times> lexer" where
  "parseVersionNumber isIntegral asIntegral L =
     (case expect TK_IDENT L of
        Inl e \<Rightarrow> Inl e
      | Inr (name, L1) \<Rightarrow>
     (case expect (TK_CHAR CHR ''='') L1 of
        Inl e \<Rightarrow> Inl e
      | Inr (eq, L2) \<Rightarrow>
     (case expect TK_NUMBER L2 of
        Inl e \<Rightarrow> Inl e
      | Inr (version, L3) \<Rightarrow>
     (case expect TK_NEWLINE L3 of
        Inl e \<Rightarrow> Inl e
      | Inr (nl, L4) \<Rightarrow>
          if tok_text name \<noteq> ''op_version_set''
            then Inl (MalformedHeader ''expected an assignment to op_version_set'')
          else if \<not> isIntegral (tok_text version)
            then Inl (MalformedHeader
                        (''expected an integral version but found '' @ tok_text version))
          else Inr (unat (asIntegral (tok_text version)), L4)))))"

section \<open>The symbol environment and class namespaces\<close>

text \<open>
  Modelled from the spec: \<^verbatim>\<open>c10::QualifiedName\<close> and the registry behind
  \<^verbatim>\<open>ClassType::get\<close> are outside the file. The spec calls a qualified name "a
  dot-separated path [...] built incrementally by appending one segment at a time", and the
  registry "global, process-wide, keyed by qualified dotted name", with
  \<^verbatim>\<open>get(qualifiedName) -> Type | none\<close>.
\<close>

type_synonym registry = "qualified_name \<rightharpoonup> class_type"

definition QualifiedName_create :: "qualified_name \<Rightarrow> string \<Rightarrow> qualified_name" where
  "QualifiedName_create pfx name = pfx @ [name]"

fun split_dotted :: "string \<Rightarrow> string \<Rightarrow> qualified_name" where
  "split_dotted [] atom = [atom]"
| "split_dotted (c # cs) atom =
     (if c = CHR ''.'' then atom # split_dotted cs [] else split_dotted cs (atom @ [c]))"

definition QualifiedName_createFromDotted :: "string \<Rightarrow> qualified_name" where
  "QualifiedName_createFromDotted s = split_dotted s []"

definition ClassType_get :: "registry \<Rightarrow> qualified_name \<Rightarrow> class_type option" where
  "ClassType_get reg name = reg name"

definition OpsValue_attr :: "nat \<Rightarrow> string \<Rightarrow> 'c SugaredValue" where
  "OpsValue_attr version field = BuiltinModule field version"

definition ClassNamespaceValue_attr :: "registry \<Rightarrow> qualified_name \<Rightarrow> string \<Rightarrow> 'c SugaredValue" where
  "ClassNamespaceValue_attr reg basename name =
     (let fullName = QualifiedName_create basename name
      in case ClassType_get reg fullName of
           Some classType \<Rightarrow> ClassValue classType
         | None \<Rightarrow> ClassNamespaceValue fullName)"

datatype 'c SourceResolver =
  SourceResolver (resolver_version: nat) (resolver_constants: "'c list")

definition env :: "'c SourceResolver \<Rightarrow> (string \<times> 'c SugaredValue) list" where
  "env r =
     [(''torch'', BuiltinModule ''aten'' (resolver_version r)),
      (''ops'', OpsValue (resolver_version r)),
      (''CONSTANTS'', ConstantTableValue (resolver_constants r)),
      (''fork'', ForkValue),
      (''annotate'', AnnotateValue),
      (''inf'', ConstantValue Double_infinity),
      (''nan'', ConstantValue Double_quiet_NaN)]"

definition resolveValue :: "'c SourceResolver \<Rightarrow> string \<Rightarrow> 'c SugaredValue option" where
  "resolveValue r name =
     (case map_of (env r) name of
        Some v \<Rightarrow> Some v
      | None \<Rightarrow>
          if name = ''__torch__'' then Some (ClassNamespaceValue (QualifiedName_create [] name))
          else None)"

definition resolveType :: "registry \<Rightarrow> string \<Rightarrow> class_type option" where
  "resolveType reg name = ClassType_get reg (QualifiedName_createFromDotted name)"

section \<open>The import preamble\<close>

text \<open>
  A \<^verbatim>\<open>std::set<std::string>\<close> is the strictly increasing list of its elements, which is
  the order its iteration visits; \<^verbatim>\<open>insert\<close> leaves a set that has the string
  unchanged. Strings are compared as \<^verbatim>\<open>std::string\<close> compares them, byte by byte with
  a proper prefix first.
\<close>

fun set_insert :: "string \<Rightarrow> string list \<Rightarrow> string list" where
  "set_insert x [] = [x]"
| "set_insert x (y # ys) =
     (if x < y then x # y # ys
      else if x = y then y # ys
      else y # set_insert x ys)"

text \<open>
  The inner loop of \<^verbatim>\<open>parseImports\<close> appends the text of every token up to the next
  \<^verbatim>\<open>TK_NEWLINE\<close>. At the end of input the current token stays \<^verbatim>\<open>TK_EOF\<close>, the loop
  never leaves, and the result is \<open>None\<close>.
\<close>

fun import_name :: "lexer \<Rightarrow> string \<Rightarrow> (string \<times> lexer) option" where
  "import_name [] s = None"
| "import_name (t # ts) s =
     (if tok_kind t \<noteq> TK_NEWLINE then import_name ts (s @ tok_text t)
      else Some (s, t # ts))"

function parseImports_loop ::
  "lexer \<Rightarrow> string list \<Rightarrow> (error + string list \<times> lexer) option" where
  "parseImports_loop L imports =
     (case nextIf TK_IMPORT L of
        (False, L0) \<Rightarrow> Some (Inr (imports, L0))
      | (True, L1) \<Rightarrow>
          (case import_name L1 [] of
             None \<Rightarrow> None
           | Some (str, L2) \<Rightarrow>
               (case expect TK_NEWLINE L2 of
                  Inl e \<Rightarrow> Some (Inl e)
                | Inr (nl, L3) \<Rightarrow>
                    if str = [] then Some (Inl AssertFailure)
                    else parseImports_loop L3 (set_insert str imports))))"
  by pat_completeness auto
termination
proof (relation "measure (\<lambda>(L, imports). length L)")
  show "wf (measure (\<lambda>(L, imports). length L))"
    by simp
next
  fix L :: lexer and imps :: "string list" and b L1 y str L2 z nl L3
  assume nx: "(b, L1) = nextIf TK_IMPORT L" and b: "b = True"
    and nm: "import_name L1 [] = Some y" and y: "(str, L2) = y"
    and ex: "expect TK_NEWLINE L2 = Inr z" and z: "(nl, L3) = z"
  have shrink: "length L'' \<le> length L'" if "import_name L' s = Some (n, L'')" for L' s n L''
    using that by (induction L' arbitrary: s) (auto split: if_splits intro: le_SucI)
  have "length L1 < length L"
    using nx b by (auto simp: nextIf_def split: list.splits if_splits)
  moreover have "length L2 \<le> length L1"
    using shrink nm y by metis
  moreover have "length L3 < length L2"
    using ex z by (auto simp: expect_def split: list.splits if_splits)
  ultimately show "((L3, set_insert str imps), (L, imps)) \<in> measure (\<lambda>(L, imports). length L)"
    by simp
qed

declare parseImports_loop.simps [simp del]

definition parseImports :: "lexer \<Rightarrow> (error + string list \<times> lexer) option" where
  "parseImports L = parseImports_loop L []"

section \<open>The reconstruction drivers\<close>

text \<open>
  The drivers act on the world through collaborators: the import callback, the class
  registry (\<^verbatim>\<open>ClassType::create\<close>) and the compiler (\<^verbatim>\<open>CompilationUnit::define\<close>).
  The state records each of these calls, in order, and the objects built with
  \<^verbatim>\<open>std::make_shared\<close>; the address of an object is its position in the heap, so that
  two objects are the same exactly when their addresses are equal.
\<close>

datatype 'd ClassDef = ClassDef (ClassDef_name: string) (ClassDef_defs: "'d list")

datatype 'm unit_ref = ModuleUnit 'm | FreshUnit nat

datatype 'm self_type = ModuleType 'm | OfClass class_type

datatype ('d, 'm) event =
    Callback string
  | Create class_type
  | Define "'m unit_ref" "'d list" "nat list" "'m self_type"

datatype 'c object = SourceResolverObj "'c SourceResolver" | CompilationUnitObj

record ('c, 'd, 'm) state =
  events :: "('d, 'm) event list"
  heap :: "'c object list"

definition make_shared ::
  "'c object \<Rightarrow> ('c, 'd, 'm) state \<Rightarrow> nat \<times> ('c, 'd, 'm) state" where
  "make_shared obj st = (length (heap st), st\<lparr>heap := heap st @ [obj]\<rparr>)"

definition emit :: "('d, 'm) event \<Rightarrow> ('c, 'd, 'm) state \<Rightarrow> ('c, 'd, 'm) state" where
  "emit e st = st\<lparr>events := events st @ [e]\<rparr>"

text \<open>
  The collaborators whose code is outside the file. A parser reads from the lexer and
  returns the lexer it leaves; a parser, the compiler and the callback may raise.
\<close>

record ('d, 'm) collaborators =
  Const_isIntegral :: "string \<Rightarrow> bool"
  Const_asIntegral :: "string \<Rightarrow> 64 word"
  parseFunction :: "bool \<Rightarrow> lexer \<Rightarrow> error + 'd \<times> lexer"
  parseClass :: "lexer \<Rightarrow> error + 'd ClassDef \<times> lexer"
  cu_define :: "'m unit_ref \<Rightarrow> 'd list \<Rightarrow> nat list \<Rightarrow> 'm self_type \<Rightarrow> error option"

type_synonym callback = "string \<Rightarrow> error option"

text \<open>The loop over the imports with its test of the callback (lines 179 to 183, 212 to 216).\<close>

fun invoke_callbacks ::
  "callback option \<Rightarrow> string list \<Rightarrow> ('c, 'd, 'm) state \<Rightarrow> error option \<times> ('c, 'd, 'm) state" where
  "invoke_callbacks import_callback [] st = (None, st)"
| "invoke_callbacks import_callback (i # imports) st =
     (case import_callback of
        None \<Rightarrow> invoke_callbacks import_callback imports st
      | Some cb \<Rightarrow>
          (let st1 = emit (Callback i) st
           in case cb i of
                Some e \<Rightarrow> (Some e, st1)
              | None \<Rightarrow> invoke_callbacks import_callback imports st1))"

text \<open>
  The loop of \<^verbatim>\<open>import_methods\<close> that parses definitions until the end of input, adding
  one definition and one resolver at each turn. It returns when the parser reaches the end
  of input or raises, and not otherwise.
\<close>

partial_function (option) parse_definitions ::
  "(lexer \<Rightarrow> error + 'd \<times> lexer) \<Rightarrow> nat \<Rightarrow> lexer \<Rightarrow> 'd list \<times> nat list \<Rightarrow>
     (error + 'd list \<times> nat list) option" where
  "parse_definitions parse resolver L acc =
     (if L = [] then Some (Inr acc)
      else case parse L of
             Inl e \<Rightarrow> Some (Inl e)
           | Inr (def, L') \<Rightarrow>
               parse_definitions parse resolver L' (fst acc @ [def], snd acc @ [resolver]))"

declare parse_definitions.simps [code]

definition import_methods ::
  "('d, 'm) collaborators \<Rightarrow> 'm \<Rightarrow> lexer \<Rightarrow> 'c list \<Rightarrow> callback option \<Rightarrow>
     ('c, 'd, 'm) state \<Rightarrow> ((error + unit) \<times> ('c, 'd, 'm) state) option" where
  "import_methods X module src constant_table import_callback st =
     (case parseVersionNumber (Const_isIntegral X) (Const_asIntegral X) src of
        Inl e \<Rightarrow> Some (Inl e, st)
      | Inr (version, L1) \<Rightarrow>
     (case parseImports L1 of
        None \<Rightarrow> None
      | Some (Inl e) \<Rightarrow> Some (Inl e, st)
      | Some (Inr (imports, L2)) \<Rightarrow>
     (case invoke_callbacks import_callback imports st of
        (Some e, st1) \<Rightarrow> Some (Inl e, st1)
      | (None, st1) \<Rightarrow>
     (case make_shared (SourceResolverObj (SourceResolver version constant_table)) st1 of
        (resolver, st2) \<Rightarrow>
     (case parse_definitions (parseFunction X True) resolver L2 ([], []) of
        None \<Rightarrow> None
      | Some (Inl e) \<Rightarrow> Some (Inl e, st2)
      | Some (Inr (definitions, resolvers)) \<Rightarrow>
          (let st3 = emit (Define (ModuleUnit module) definitions resolvers (ModuleType module)) st2
           in case cu_define X (ModuleUnit module) definitions resolvers (ModuleType module) of
                Some e \<Rightarrow> Some (Inl e, st3)
              | None \<Rightarrow> Some (Inr (), st3)))))))"

text \<open>The loop over the methods of a class (lines 222 to 225).\<close>

fun pair_methods :: "nat \<Rightarrow> 'd list \<Rightarrow> 'd list \<times> nat list \<Rightarrow> 'd list \<times> nat list" where
  "pair_methods resolver [] acc = acc"
| "pair_methods resolver (method_def # ms) acc =
     pair_methods resolver ms (fst acc @ [method_def], snd acc @ [resolver])"

text \<open>
  One turn of the loop of \<^verbatim>\<open>import_libs\<close> (lines 211 to 236): the imports of one class,
  the class, its type and the submission of its methods. \<^verbatim>\<open>ClassType::create\<close> is recorded
  with the type it makes.
\<close>

definition import_libs_body ::
  "('d, 'm) collaborators \<Rightarrow> string \<Rightarrow> nat \<Rightarrow> 'c list \<Rightarrow> callback option \<Rightarrow> lexer \<Rightarrow>
     ('c, 'd, 'm) state \<Rightarrow> ((error + lexer) \<times> ('c, 'd, 'm) state) option" where
  "import_libs_body X class_qualifier version constant_table import_callback L st =
     (case parseImports L of
        None \<Rightarrow> None
      | Some (Inl e) \<Rightarrow> Some (Inl e, st)
      | Some (Inr (imports, L1)) \<Rightarrow>
     (case invoke_callbacks import_callback imports st of
        (Some e, st1) \<Rightarrow> Some (Inl e, st1)
      | (None, st1) \<Rightarrow>
     (case make_shared (SourceResolverObj (SourceResolver version constant_table)) st1 of
        (resolver, st2) \<Rightarrow>
     (case parseClass X L1 of
        Inl e \<Rightarrow> Some (Inl e, st2)
      | Inr (class_def, L2) \<Rightarrow>
     (case pair_methods resolver (ClassDef_defs class_def) ([], []) of
        (definitions, resolvers) \<Rightarrow>
     (case make_shared CompilationUnitObj st2 of
        (cu, st3) \<Rightarrow>
          (let qualified_classname = class_qualifier @ ''.'' @ ClassDef_name class_def;
               class_type = ClassType (QualifiedName_createFromDotted qualified_classname) cu;
               st4 = emit (Create class_type) st3;
               st5 = emit (Define (FreshUnit cu) definitions resolvers (OfClass class_type)) st4
           in case cu_define X (FreshUnit cu) definitions resolvers (OfClass class_type) of
                Some e \<Rightarrow> Some (Inl e, st5)
              | None \<Rightarrow> Some (Inr L2, st5))))))))"

partial_function (option) import_libs_loop ::
  "('d, 'm) collaborators \<Rightarrow> string \<Rightarrow> nat \<Rightarrow> 'c list \<Rightarrow> callback option \<Rightarrow> lexer \<Rightarrow>
     ('c, 'd, 'm) state \<Rightarrow> ((error + unit) \<times> ('c, 'd, 'm) state) option" where
  "import_libs_loop X class_qualifier version constant_table import_callback L st =
     (if L = [] then Some (Inr (), st)
      else case import_libs_body X class_qualifier version constant_table import_callback L st of
             None \<Rightarrow> None
           | Some (Inl e, st') \<Rightarrow> Some (Inl e, st')
           | Some (Inr L', st') \<Rightarrow>
               import_libs_loop X class_qualifier version constant_table import_callback L' st')"

declare import_libs_loop.simps [code]

definition import_libs ::
  "('d, 'm) collaborators \<Rightarrow> string \<Rightarrow> lexer \<Rightarrow> 'c list \<Rightarrow> callback option \<Rightarrow>
     ('c, 'd, 'm) state \<Rightarrow> ((error + unit) \<times> ('c, 'd, 'm) state) option" where
  "import_libs X class_qualifier src constant_table import_callback st =
     (case parseVersionNumber (Const_isIntegral X) (Const_asIntegral X) src of
        Inl e \<Rightarrow> Some (Inl e, st)
      | Inr (version, L) \<Rightarrow>
          import_libs_loop X class_qualifier version constant_table import_callback L st)"


section \<open>Notions used to state the properties\<close>

text \<open>
  An import statement as a token list: the import keyword, tokens that are not line
  terminators, and the line terminator. Its name is the text of the tokens in between.
\<close>

definition is_import_statement :: "token list \<Rightarrow> bool" where
  "is_import_statement line =
     (case line of
        [] \<Rightarrow> False
      | i # ts \<Rightarrow> tok_kind i = TK_IMPORT \<and> ts \<noteq> [] \<and> tok_kind (last ts) = TK_NEWLINE
                 \<and> list_all (\<lambda>t. tok_kind t \<noteq> TK_NEWLINE) (butlast ts))"

definition statement_name :: "token list \<Rightarrow> string" where
  "statement_name line = concat (map tok_text (butlast (tl line)))"

definition starts_with_import :: "lexer \<Rightarrow> bool" where
  "starts_with_import L = (case L of [] \<Rightarrow> False | t # ts \<Rightarrow> tok_kind t = TK_IMPORT)"

text \<open>No import keyword is immediately followed by a line terminator.\<close>

fun no_bare_import :: "lexer \<Rightarrow> bool" where
  "no_bare_import (a # b # ts) =
     ((tok_kind a = TK_IMPORT \<longrightarrow> tok_kind b \<noteq> TK_NEWLINE) \<and> no_bare_import (b # ts))"
| "no_bare_import ts = True"

text \<open>
  Modelled from the spec: the \<^verbatim>\<open>Lexer\<close> is not part of this file. By the grammar of a
  source unit, \<^verbatim>\<open>import <dotted-or-free-text> NEWLINE\<close>, what an import keyword is
  followed by on its line is text: the token after it, unless it is the line terminator,
  spans at least one character.
\<close>

fun import_followed_by_text :: "lexer \<Rightarrow> bool" where
  "import_followed_by_text (a # b # ts) =
     ((tok_kind a = TK_IMPORT \<and> tok_kind b \<noteq> TK_NEWLINE \<longrightarrow> tok_text b \<noteq> [])
      \<and> import_followed_by_text (b # ts))"
| "import_followed_by_text ts = True"

text \<open>The events a call added, the callback invocations among events, in order.\<close>

definition new_events :: "('c, 'd, 'm) state \<Rightarrow> ('c, 'd, 'm) state \<Rightarrow> ('d, 'm) event list" where
  "new_events st st' = drop (length (events st)) (events st')"

fun callbacks_of :: "('d, 'm) event list \<Rightarrow> string list" where
  "callbacks_of [] = []"
| "callbacks_of (Callback n # es) = n # callbacks_of es"
| "callbacks_of (e # es) = callbacks_of es"


text \<open>The two lists a call of \<^verbatim>\<open>define\<close> submits.\<close>

fun submitted_definitions :: "('d, 'm) event \<Rightarrow> 'd list" where
  "submitted_definitions (Define u ds rs sf) = ds"
| "submitted_definitions e = []"

fun submitted_resolvers :: "('d, 'm) event \<Rightarrow> nat list" where
  "submitted_resolvers (Define u ds rs sf) = rs"
| "submitted_resolvers e = []"

text \<open>A state with the callback invocations taken out of its record.\<close>

fun is_Callback :: "('d, 'm) event \<Rightarrow> bool" where
  "is_Callback (Callback n) = True"
| "is_Callback e = False"

definition without_callbacks :: "('c, 'd, 'm) state \<Rightarrow> ('c, 'd, 'm) state" where
  "without_callbacks st = st\<lparr>events := filter (\<lambda>e. \<not> is_Callback e) (events st)\<rparr>"

text \<open>
  Two submissions share no environment; and the invariant of the loop of \<^verbatim>\<open>import_libs\<close>
  for the events \<open>new\<close> and the objects \<open>objs\<close> added to a heap of size \<open>h\<close>: every
  submission pairs each definition with one and the same environment, its environments are
  resolvers over the version and the constant table among the added objects, and different
  submissions use different environments.
\<close>

definition disjoint_environments :: "('d, 'm) event \<Rightarrow> ('d, 'm) event \<Rightarrow> bool" where
  "disjoint_environments e e' =
     (set (submitted_resolvers e) \<inter> set (submitted_resolvers e') = {})"

definition environments_fresh ::
  "nat \<Rightarrow> 'c list \<Rightarrow> nat \<Rightarrow> ('d, 'm) event list \<Rightarrow> 'c object list \<Rightarrow> bool" where
  "environments_fresh v tbl h new objs =
     ((\<forall>e\<in>set new.
         (\<exists>a. submitted_resolvers e = replicate (length (submitted_definitions e)) a)
         \<and> (\<forall>a\<in>set (submitted_resolvers e).
               h \<le> a \<and> a < h + length objs
               \<and> objs ! (a - h) = SourceResolverObj (SourceResolver v tbl)))
      \<and> sorted_wrt disjoint_environments new)"










subsection \<open>Sample collaborators\<close>

text \<open>
  To run the drivers on concrete token streams: a parser that takes one \<^verbatim>\<open>TK_DEF\<close> token
  for a method and names the method by the token's text, a class parser that takes one
  \<^verbatim>\<open>TK_CLASS_DEF\<close> token and the method tokens after it, and a compiler that accepts
  every submission.
\<close>

definition sample_parseFunction :: "bool \<Rightarrow> lexer \<Rightarrow> error + string \<times> lexer" where
  "sample_parseFunction is_method L =
     (case L of
        [] \<Rightarrow> Inl (External ''expected def'')
      | t # ts \<Rightarrow> if tok_kind t = TK_DEF then Inr (tok_text t, ts)
                 else Inl (External ''expected def''))"

definition sample_parseClass :: "lexer \<Rightarrow> error + string ClassDef \<times> lexer" where
  "sample_parseClass L =
     (case L of
        [] \<Rightarrow> Inl (External ''expected class'')
      | t # ts \<Rightarrow>
          if tok_kind t = TK_CLASS_DEF
          then Inr (ClassDef (tok_text t)
                      (map tok_text (takeWhile (\<lambda>t. tok_kind t = TK_DEF) ts)),
                    dropWhile (\<lambda>t. tok_kind t = TK_DEF) ts)
          else Inl (External ''expected class''))"

definition sample_collaborators :: "(string, nat) collaborators" where
  "sample_collaborators =
     \<lparr>Const_isIntegral = (\<lambda>t. True),
      Const_asIntegral = (\<lambda>t. 1),
      parseFunction = sample_parseFunction,
      parseClass = sample_parseClass,
      cu_define = (\<lambda>u ds rs sf. None)\<rparr>"

definition empty_state :: "(nat, string, nat) state" where
  "empty_state = \<lparr>events = [], heap = []\<rparr>"

text \<open>The tokens of \<^verbatim>\<open>op_version_set = 1\<close> and of \<^verbatim>\<open>import <name>\<close>, each with its newline.\<close>

definition sample_header :: lexer where
  "sample_header =
     [Token TK_IDENT ''op_version_set'', Token (TK_CHAR CHR ''='') ''='',
      Token TK_NUMBER ''1'', Token TK_NEWLINE '''']"

definition sample_import :: "string \<Rightarrow> lexer" where
  "sample_import n = [Token TK_IMPORT ''import'', Token TK_IDENT n, Token TK_NEWLINE '''']"

section \<open>Properties of the constant-table accessor\<close>

lemma strtoll_no_digits:
  "takeWhile isdigit (snd (read_sign (dropWhile isspace s))) = [] \<Longrightarrow> strtoll s = (0, s)"
  by (cases "read_sign (dropWhile isspace s)") (simp add: strtoll_def)

lemma strtoll_digits:
  assumes "read_sign (dropWhile isspace s) = (neg, s2)" and "takeWhile isdigit s2 \<noteq> []"
  shows "strtoll s =
           (if neg then max LLONG_MIN (- digits_value (takeWhile isdigit s2))
            else min LLONG_MAX (digits_value (takeWhile isdigit s2)),
            dropWhile isdigit s2)"
  using assms by (simp add: strtoll_def)

lemma read_sign_rest:
  "snd (read_sign r) =
     (case r of [] \<Rightarrow> [] | c # cs \<Rightarrow> if c = CHR ''-'' \<or> c = CHR ''+'' then cs else r)"
  by (simp add: read_sign_def split: list.splits)

lemma signed_decimal_alt:
  "signed_decimal s \<longleftrightarrow>
     snd (read_sign (dropWhile isspace s)) \<noteq> [] \<and>
     list_all isdigit (snd (read_sign (dropWhile isspace s)))"
  by (simp add: signed_decimal_def read_sign_rest Let_def)

lemma set_read_sign: "set (snd (read_sign r)) \<subseteq> set r"
  by (auto simp: read_sign_def split: list.splits)

lemma deref_Nil_iff: "CHR 0x00 \<notin> set e \<Longrightarrow> deref e = CHR 0x00 \<longleftrightarrow> e = []"
  by (cases e) (auto simp: deref_def)

text \<open>
  On a text without NUL, \<^verbatim>\<open>*end == 0\<close> after \<^verbatim>\<open>strtoll\<close> says that the whole text was
  a signed decimal numeral.
\<close>

lemma strtoll_end_iff:
  assumes nul: "CHR 0x00 \<notin> set s" and ne: "s \<noteq> []"
  shows "deref (snd (strtoll s)) = CHR 0x00 \<longleftrightarrow> signed_decimal s"
proof -
  obtain neg s2 where rs: "read_sign (dropWhile isspace s) = (neg, s2)"
    by (cases "read_sign (dropWhile isspace s)")
  have sub: "set s2 \<subseteq> set s"
    using set_read_sign [of "dropWhile isspace s"] rs set_dropWhileD [of _ isspace s] by auto
  show ?thesis
  proof (cases "takeWhile isdigit s2 = []")
    case True
    then have "strtoll s = (0, s)"
      using strtoll_no_digits [of s] rs by simp
    moreover have "\<not> signed_decimal s"
      using True rs by (cases s2) (auto simp: signed_decimal_alt split: if_splits)
    ultimately show ?thesis
      using nul ne by (simp add: deref_Nil_iff)
  next
    case False
    then have e: "snd (strtoll s) = dropWhile isdigit s2"
      using strtoll_digits [OF rs] by simp
    have "CHR 0x00 \<notin> set (dropWhile isdigit s2)"
      using sub nul set_dropWhileD [of _ isdigit s2] by auto
    then have "deref (snd (strtoll s)) = CHR 0x00 \<longleftrightarrow> dropWhile isdigit s2 = []"
      using e by (simp add: deref_Nil_iff)
    also have "\<dots> \<longleftrightarrow> list_all isdigit s2"
      by (simp add: list_all_iff)
    also have "\<dots> \<longleftrightarrow> signed_decimal s"
      using False rs by (auto simp: signed_decimal_alt)
    finally show ?thesis .
  qed
qed

lemma attr_invalid_iff_end:
  "ConstantTableValue_attr constants g field = Inl (InvalidConstantSpecifier field) \<longleftrightarrow>
     length field < 2 \<or> deref (snd (strtoll (drop 1 field))) \<noteq> CHR 0x00"
  by (auto simp: ConstantTableValue_attr_def insertConstant_def split: prod.splits)

lemma isdigit_digit: "d < 10 \<Longrightarrow> isdigit (char_of (48 + d :: nat))"
  by (simp add: isdigit_def)

lemma digit_value_digit: "d < 10 \<Longrightarrow> digit_value (char_of (48 + d :: nat)) = int d"
  by (simp add: digit_value_def)

lemma decimal_digits: "list_all isdigit (decimal n)"
proof (induction n rule: decimal.induct)
  case (1 n)
  then show ?case
    by (subst decimal.simps) (simp add: isdigit_digit)
qed

lemma decimal_not_Nil: "decimal n \<noteq> []"
  by (subst decimal.simps) simp

lemma digits_value_snoc: "digits_value (ds @ [c]) = 10 * digits_value ds + digit_value c"
  by (simp add: digits_value_def)

lemma digits_value_decimal: "digits_value (decimal n) = int n"
proof (induction n rule: decimal.induct)
  case (1 n)
  show ?case
  proof (cases "n < 10")
    case True
    then show ?thesis
      by (subst decimal.simps) (simp add: digits_value_def digit_value_digit)
  next
    case False
    then have "digits_value (decimal n) = 10 * int (n div 10) + int (n mod 10)"
      using 1 by (subst decimal.simps) (simp add: digits_value_snoc digit_value_digit)
    then show ?thesis by presburger
  qed
qed

lemma digit_not_space: "isdigit c \<Longrightarrow> \<not> isspace c"
  by (auto simp: isdigit_def isspace_def Let_def)

lemma digit_not_sign: "isdigit c \<Longrightarrow> c \<noteq> CHR ''-'' \<and> c \<noteq> CHR ''+''"
  by (auto simp: isdigit_def)

lemma strtoll_all_digits:
  assumes "ds \<noteq> []" and "list_all isdigit ds"
  shows "strtoll ds = (min LLONG_MAX (digits_value ds), [])"
proof -
  obtain c cs where ds: "ds = c # cs" using assms(1) by (cases ds) auto
  then have c: "isdigit c" using assms(2) by simp
  have sp: "dropWhile isspace ds = ds"
    using ds c digit_not_space by simp
  have sg: "read_sign ds = (False, ds)"
    using ds digit_not_sign [OF c] by (simp add: read_sign_def)
  have tw: "takeWhile isdigit ds = ds" and dw: "dropWhile isdigit ds = []"
    using assms(2) by (simp_all add: list_all_iff)
  show ?thesis
    using assms(1) by (simp add: strtoll_def sp sg tw dw)
qed

lemma strtoll_minus_digits:
  assumes "ds \<noteq> []" and "list_all isdigit ds"
  shows "strtoll (CHR ''-'' # ds) = (max LLONG_MIN (- digits_value ds), [])"
proof -
  have sp: "dropWhile isspace (CHR ''-'' # ds) = CHR ''-'' # ds"
    by (simp add: isspace_def)
  have sg: "read_sign (CHR ''-'' # ds) = (True, ds)"
    by (simp add: read_sign_def)
  have tw: "takeWhile isdigit ds = ds" and dw: "dropWhile isdigit ds = []"
    using assms(2) by (simp_all add: list_all_iff)
  show ?thesis
    using assms(1) by (simp add: strtoll_def sp sg tw dw del: dropWhile.simps)
qed

lemmas attr_eval =
  ConstantTableValue_attr_def strtoll_def read_sign_def isspace_def isdigit_def
  digits_value_def digit_value_def LLONG_MIN_def LLONG_MAX_def deref_def insertConstant_def
  signed_decimal_def

lemma attr_invalid_payload:
  assumes "ConstantTableValue_attr constants g field = Inl (InvalidConstantSpecifier s)"
  shows "s = field"
  using assms
  by (auto simp: ConstantTableValue_attr_def insertConstant_def split: prod.splits if_splits)

lemma attr_invalid_any_iff_end:
  "(\<exists>s. ConstantTableValue_attr constants g field = Inl (InvalidConstantSpecifier s)) \<longleftrightarrow>
     length field < 2 \<or> deref (snd (strtoll (drop 1 field))) \<noteq> CHR 0x00"
  using attr_invalid_payload [of constants g field] attr_invalid_iff_end [of constants g field]
  by blast

text \<open>
  Claim C1, as amended. \<^verbatim>\<open>ConstantTableValue::attr\<close> raises \<open>InvalidConstantSpecifier\<close>
  for every string shorter than two characters, and never for a string made of one leading
  character and one or more decimal digits. For a string without NUL it raises the error
  exactly when the string is shorter than two characters or the text after the leading
  character is not what \<^verbatim>\<open>strtoll\<close> reads in full: optional white space, an optional
  sign, then one or more decimal digits. The leading character itself is not examined.
  The error always carries the whole attribute name.
\<close>

theorem attr_invalid_specifier:
  "(length field < 2 \<longrightarrow>
      ConstantTableValue_attr constants g field = Inl (InvalidConstantSpecifier field))
   \<and> (ds \<noteq> [] \<and> list_all isdigit ds \<longrightarrow>
      (\<forall>s. ConstantTableValue_attr constants g (c # ds) \<noteq> Inl (InvalidConstantSpecifier s)))
   \<and> (CHR 0x00 \<notin> set field \<longrightarrow>
      ((\<exists>s. ConstantTableValue_attr constants g field = Inl (InvalidConstantSpecifier s)) \<longleftrightarrow>
         length field < 2 \<or> \<not> signed_decimal (tl field)))
   \<and> (ConstantTableValue_attr constants g field = Inl (InvalidConstantSpecifier s) \<longrightarrow>
        s = field)"
proof (intro conjI impI)
  assume "length field < 2"
  then show "ConstantTableValue_attr constants g field = Inl (InvalidConstantSpecifier field)"
    by (simp add: attr_invalid_iff_end)
next
  assume d: "ds \<noteq> [] \<and> list_all isdigit ds"
  then have "strtoll ds = (min LLONG_MAX (digits_value ds), [])"
    using strtoll_all_digits by blast
  then have "\<not> (\<exists>s. ConstantTableValue_attr constants g (c # ds) =
                      Inl (InvalidConstantSpecifier s))"
    unfolding attr_invalid_any_iff_end using d by (cases ds) (simp_all add: deref_def)
  then show "\<forall>s. ConstantTableValue_attr constants g (c # ds) \<noteq>
                  Inl (InvalidConstantSpecifier s)"
    by blast
next
  assume nul: "CHR 0x00 \<notin> set field"
  show "(\<exists>s. ConstantTableValue_attr constants g field = Inl (InvalidConstantSpecifier s)) \<longleftrightarrow>
          length field < 2 \<or> \<not> signed_decimal (tl field)"
  proof (cases "length field < 2")
    case True
    then show ?thesis unfolding attr_invalid_any_iff_end by simp
  next
    case False
    then have ne: "tl field \<noteq> []" by (cases field) auto
    have "CHR 0x00 \<notin> set (tl field)"
      using nul by (cases field) auto
    then show ?thesis
      unfolding attr_invalid_any_iff_end
      using False strtoll_end_iff [OF _ ne] by (simp add: drop_Suc)
  qed
next
  assume "ConstantTableValue_attr constants g field = Inl (InvalidConstantSpecifier s)"
  then show "s = field" by (rule attr_invalid_payload)
qed

text \<open>
  The hypotheses of C1 at \<^verbatim>\<open>c\<close>, \<^verbatim>\<open>c12\<close> and \<^verbatim>\<open>c1a\<close>: the first and the last raise
  the error with the attribute name, \<^verbatim>\<open>c12\<close> resolves to entry 12.
\<close>

theorem attr_invalid_specifier_witness:
  "length ''c'' < 2
   \<and> ConstantTableValue_attr [7::nat] [] ''c'' = Inl (InvalidConstantSpecifier ''c'')
   \<and> ''12'' \<noteq> [] \<and> list_all isdigit ''12''
   \<and> ConstantTableValue_attr (replicate 13 (7::nat)) [] ''c12'' =
       Inr (SimpleValue 0, [Constant 7])
   \<and> CHR 0x00 \<notin> set ''c1a''
   \<and> \<not> signed_decimal (tl ''c1a'')
   \<and> ConstantTableValue_attr [7::nat] [] ''c1a'' = Inl (InvalidConstantSpecifier ''c1a'')"
proof -
  have "\<exists>s. ConstantTableValue_attr [7::nat] [] ''c1a'' = Inl (InvalidConstantSpecifier s)"
    using attr_invalid_specifier [where field = "''c1a''" and constants = "[7::nat]"
        and g = "[]" and ds = "''12''" and c = "CHR ''c''"]
    by (simp add: isdigit_def isspace_def signed_decimal_def)
  then obtain s where
    s: "ConstantTableValue_attr [7::nat] [] ''c1a'' = Inl (InvalidConstantSpecifier s)" ..
  have "s = ''c1a''"
    using attr_invalid_specifier [where field = "''c1a''" and constants = "[7::nat]"
        and g = "[]" and ds = "''12''" and c = "CHR ''c''" and s = s] s
    by simp
  then show ?thesis
    using s attr_invalid_specifier [where field = "''c''" and constants = "[7::nat]"
        and g = "[]" and ds = "''12''" and c = "CHR ''c''"]
    by (simp add: attr_eval)
qed

text \<open>
  C1 as stated asks for \<open>InvalidConstantSpecifier\<close> whenever a character after the leading
  one is not a digit. \<^verbatim>\<open>c+0\<close> resolves to entry 0 of a one-entry table, and \<^verbatim>\<open>c-1\<close> is
  reported as an offset out of range.
\<close>

theorem attr_sign_counterexample:
  "\<not> list_all isdigit (tl ''c+0'')
   \<and> ConstantTableValue_attr [7::nat] [] ''c+0'' = Inr (SimpleValue 0, [Constant 7])
   \<and> \<not> list_all isdigit (tl ''c-1'')
   \<and> ConstantTableValue_attr [7::nat] [] ''c-1'' = Inl (ConstantIndexOutOfRange (- 1) 1)"
  by (simp add: attr_eval)

text \<open>
  Claim C2. On a table of \<open>N\<close> entries (\<open>N\<close> below \<open>2 ^ 63\<close>, as every
  \<^verbatim>\<open>ArrayRef<at::Tensor>\<close> is), the attribute \<^verbatim>\<open>c<k>\<close> resolves, for \<open>k < N\<close>, to a
  simple value for a new constant node holding entry \<open>k\<close>; for \<open>k \<ge> N\<close> it fails with
  \<open>ConstantIndexOutOfRange\<close>, and so does \<^verbatim>\<open>c-<k>\<close> for \<open>k > 0\<close>, where the parsed offset
  is negative. The error carries the offset \<^verbatim>\<open>strtoll\<close> returned and the table size.
\<close>

theorem attr_index:
  assumes "length constants < 2 ^ 63"
  shows "ConstantTableValue_attr constants g (CHR ''c'' # decimal k) =
           (if k < length constants
            then Inr (SimpleValue (length g), g @ [Constant (constants ! k)])
            else Inl (ConstantIndexOutOfRange (min LLONG_MAX (int k)) (length constants)))
         \<and> (0 < k \<longrightarrow>
            ConstantTableValue_attr constants g (CHR ''c'' # CHR ''-'' # decimal k) =
              Inl (ConstantIndexOutOfRange (max LLONG_MIN (- int k)) (length constants)))"
proof (intro conjI impI)
  have s: "strtoll (decimal k) = (min LLONG_MAX (int k), [])"
    using strtoll_all_digits [OF decimal_not_Nil decimal_digits] by (simp add: digits_value_decimal)
  show "ConstantTableValue_attr constants g (CHR ''c'' # decimal k) =
           (if k < length constants
            then Inr (SimpleValue (length g), g @ [Constant (constants ! k)])
            else Inl (ConstantIndexOutOfRange (min LLONG_MAX (int k)) (length constants)))"
  proof (cases "k < length constants")
    case True
    then have "min LLONG_MAX (int k) = int k"
      using assms by (simp add: LLONG_MAX_def)
    then show ?thesis
      using True s
      by (simp add: ConstantTableValue_attr_def deref_def insertConstant_def decimal_not_Nil)
  next
    case False
    then have "length constants \<le> nat (min LLONG_MAX (int k))"
      using assms by (simp add: LLONG_MAX_def min_def)
    moreover have "0 \<le> min LLONG_MAX (int k)" by (simp add: LLONG_MAX_def)
    ultimately show ?thesis
      using False s by (simp add: ConstantTableValue_attr_def deref_def decimal_not_Nil)
  qed
next
  assume "0 < k"
  then have "max LLONG_MIN (- int k) < 0"
    by (simp add: LLONG_MIN_def)
  moreover have "strtoll (CHR ''-'' # decimal k) = (max LLONG_MIN (- int k), [])"
    using strtoll_minus_digits [OF decimal_not_Nil decimal_digits]
    by (simp add: digits_value_decimal)
  ultimately show "ConstantTableValue_attr constants g (CHR ''c'' # CHR ''-'' # decimal k) =
              Inl (ConstantIndexOutOfRange (max LLONG_MIN (- int k)) (length constants))"
    by (simp add: ConstantTableValue_attr_def deref_def decimal_not_Nil)
qed

lemma decimal_1_2: "decimal (Suc 0) = ''1''" "decimal 2 = ''2''"
  by code_simp+

text \<open>C2 on a table of two entries: \<^verbatim>\<open>c1\<close>, \<^verbatim>\<open>c2\<close> and \<^verbatim>\<open>c-1\<close>.\<close>

theorem attr_index_witness:
  "length [10, 20 :: nat] < 2 ^ 63
   \<and> ConstantTableValue_attr [10, 20 :: nat] [] ''c1'' = Inr (SimpleValue 0, [Constant 20])
   \<and> ConstantTableValue_attr [10, 20 :: nat] [] ''c2'' = Inl (ConstantIndexOutOfRange 2 2)
   \<and> ConstantTableValue_attr [10, 20 :: nat] [] ''c-1'' = Inl (ConstantIndexOutOfRange (- 1) 2)"
  using attr_index [where constants = "[10, 20 :: nat]" and g = "[]" and k = 1]
    attr_index [where constants = "[10, 20 :: nat]" and g = "[]" and k = 2]
  by (simp add: decimal_1_2 LLONG_MAX_def LLONG_MIN_def)

section \<open>Properties of the version gate\<close>

lemma unat_of_nonnegative:
  fixes w :: "64 word"
  assumes "0 \<le> sint w"
  shows "int (unat w) = sint w"
proof -
  have nb: "\<not> bit w (63::nat)" using assms bit_last_iff [of w] by simp
  have "sint w = signed_take_bit 63 (uint w)" by (simp add: sint_uint)
  also have "\<dots> = take_bit 63 (uint w)"
    using nb by (simp add: signed_take_bit_eq_if_positive bit_uint_iff)
  also have "\<dots> = uint w"
  proof (rule bit_eqI)
    fix n
    show "bit (take_bit 63 (uint w)) n = bit (uint w) n"
      using nb bit_imp_le_length [of w n]
      by (cases "n = 63") (auto simp: bit_take_bit_iff bit_uint_iff)
  qed
  finally show ?thesis by simp
qed

lemma expect_Inr: "expect k L = Inr (t, L') \<longleftrightarrow> L = t # L' \<and> tok_kind t = k"
  by (auto simp: expect_def split: list.splits)

lemma expect_Inl: "expect k L = Inl e \<Longrightarrow> e = ExpectedToken k"
  by (auto simp: expect_def split: list.splits if_splits)

lemma parseVersionNumber_Inr:
  assumes "parseVersionNumber isIntegral asIntegral L = Inr (ver, L')"
  shows "\<exists>eq v nl. L = Token TK_IDENT ''op_version_set'' # Token (TK_CHAR CHR ''='') eq #
                      Token TK_NUMBER v # Token TK_NEWLINE nl # L'
           \<and> isIntegral v \<and> ver = unat (asIntegral v)"
proof -
  from assms obtain name L1 eq L2 num L3 nl where
    e1: "expect TK_IDENT L = Inr (name, L1)" and e2: "expect (TK_CHAR CHR ''='') L1 = Inr (eq, L2)"
    and e3: "expect TK_NUMBER L2 = Inr (num, L3)" and e4: "expect TK_NEWLINE L3 = Inr (nl, L')"
    and nm: "tok_text name = ''op_version_set''" and int: "isIntegral (tok_text num)"
    and ver: "ver = unat (asIntegral (tok_text num))"
    by (auto simp: parseVersionNumber_def split: sum.splits if_splits)
  have "L = name # eq # num # nl # L'"
    using e1 e2 e3 e4 by (simp add: expect_Inr)
  moreover have "name = Token TK_IDENT ''op_version_set''"
    "eq = Token (TK_CHAR CHR ''='') (tok_text eq)"
    "num = Token TK_NUMBER (tok_text num)" "nl = Token TK_NEWLINE (tok_text nl)"
    using e1 e2 e3 e4 nm by (cases name; cases eq; cases num; cases nl; simp add: expect_Inr)+
  ultimately show ?thesis using int ver by metis
qed

lemma parseVersionNumber_mismatch:
  assumes "first_mismatch version_statement_kinds L = Some k"
  shows "parseVersionNumber isIntegral asIntegral L = Inl (ExpectedToken k)"
proof (cases L)
  case Nil
  then show ?thesis using assms
    by (simp add: version_statement_kinds_def parseVersionNumber_def expect_def)
next
  case L: (Cons a L1)
  show ?thesis
  proof (cases "tok_kind a = TK_IDENT")
    case False
    then show ?thesis using assms L
      by (simp add: version_statement_kinds_def parseVersionNumber_def expect_def)
  next
    case a: True
    show ?thesis
    proof (cases L1)
      case Nil
      then show ?thesis using assms L a
        by (simp add: version_statement_kinds_def parseVersionNumber_def expect_def)
    next
      case L1: (Cons b L2)
      show ?thesis
      proof (cases "tok_kind b = TK_CHAR CHR ''=''")
        case False
        then show ?thesis using assms L a L1
          by (simp add: version_statement_kinds_def parseVersionNumber_def expect_def)
      next
        case b: True
        show ?thesis
        proof (cases L2)
          case Nil
          then show ?thesis using assms L a L1 b
            by (simp add: version_statement_kinds_def parseVersionNumber_def expect_def)
        next
          case L2: (Cons c L3)
          show ?thesis
          proof (cases "tok_kind c = TK_NUMBER")
            case False
            then show ?thesis using assms L a L1 b L2
              by (simp add: version_statement_kinds_def parseVersionNumber_def expect_def)
          next
            case c: True
            show ?thesis
            proof (cases L3)
              case Nil
              then show ?thesis using assms L a L1 b L2 c
                by (simp add: version_statement_kinds_def parseVersionNumber_def expect_def)
            next
              case (Cons d L4)
              then show ?thesis using assms L a L1 b L2 c
                by (cases "tok_kind d = TK_NEWLINE")
                   (simp_all add: version_statement_kinds_def parseVersionNumber_def expect_def)
            qed
          qed
        qed
      qed
    qed
  qed
qed

lemma first_mismatch_Cons_None:
  "first_mismatch (k # ks) L = None \<longleftrightarrow>
     (\<exists>t ts. L = t # ts \<and> tok_kind t = k \<and> first_mismatch ks ts = None)"
  by (cases L) simp_all

lemma first_mismatch_None:
  assumes "first_mismatch version_statement_kinds L = None"
  shows "\<exists>name eq v nl rest. L = Token TK_IDENT name # Token (TK_CHAR CHR ''='') eq #
           Token TK_NUMBER v # Token TK_NEWLINE nl # rest"
proof -
  obtain a b c d rest where L: "L = a # b # c # d # rest"
    and k: "tok_kind a = TK_IDENT" "tok_kind b = TK_CHAR CHR ''=''" "tok_kind c = TK_NUMBER"
      "tok_kind d = TK_NEWLINE"
    using assms unfolding version_statement_kinds_def first_mismatch_Cons_None by auto
  have "a = Token TK_IDENT (tok_text a)" "b = Token (TK_CHAR CHR ''='') (tok_text b)"
    "c = Token TK_NUMBER (tok_text c)" "d = Token TK_NEWLINE (tok_text d)"
    using k by (cases a; cases b; cases c; cases d; simp)+
  then show ?thesis using L by metis
qed

text \<open>
  Claim C3, as amended. On a first statement \<^verbatim>\<open>name = number NEWLINE\<close>,
  \<^verbatim>\<open>parseVersionNumber\<close> fails with \<open>MalformedHeader\<close> when the name is not
  \<^verbatim>\<open>op_version_set\<close>, fails with \<open>MalformedHeader\<close> when the number is not integral, and
  otherwise returns the value of the literal converted to \<^verbatim>\<open>size_t\<close>, leaving the lexer
  after the newline. The conversion keeps every non-negative \<^verbatim>\<open>int64_t\<close> as it is: no
  bound on the version is checked. A token stream that does not begin with an identifier,
  \<^verbatim>\<open>=\<close>, a number and a newline fails in \<^verbatim>\<open>L.expect\<close> with the error for the first
  token that was expected and not found, not with \<open>MalformedHeader\<close>; every other stream
  is a first statement \<^verbatim>\<open>name = number NEWLINE\<close>.
\<close>

theorem parseVersionNumber_header:
  "parseVersionNumber isIntegral asIntegral
      (Token TK_IDENT name # Token (TK_CHAR CHR ''='') eq # Token TK_NUMBER v #
       Token TK_NEWLINE nl # rest) =
     (if name \<noteq> ''op_version_set''
        then Inl (MalformedHeader ''expected an assignment to op_version_set'')
      else if \<not> isIntegral v
        then Inl (MalformedHeader (''expected an integral version but found '' @ v))
      else Inr (unat (asIntegral v), rest))
   \<and> (0 \<le> sint (asIntegral v) \<longrightarrow> int (unat (asIntegral v)) = sint (asIntegral v))
   \<and> (first_mismatch version_statement_kinds L = Some k \<longrightarrow>
        parseVersionNumber isIntegral asIntegral L = Inl (ExpectedToken k))
   \<and> (first_mismatch version_statement_kinds L = None \<longrightarrow>
        (\<exists>name eq v nl rest. L = Token TK_IDENT name # Token (TK_CHAR CHR ''='') eq #
                                Token TK_NUMBER v # Token TK_NEWLINE nl # rest))
   \<and> (parseVersionNumber isIntegral asIntegral L = Inr (ver, L') \<longrightarrow>
        (\<exists>eq v nl. L = Token TK_IDENT ''op_version_set'' # Token (TK_CHAR CHR ''='') eq #
                       Token TK_NUMBER v # Token TK_NEWLINE nl # L'
           \<and> isIntegral v \<and> ver = unat (asIntegral v)))"
proof -
  show ?thesis
    using parseVersionNumber_Inr [of isIntegral asIntegral L ver L']
      parseVersionNumber_mismatch [of L k isIntegral asIntegral]
      first_mismatch_None [of L]
      unat_of_nonnegative [of "asIntegral v"]
    by (simp add: parseVersionNumber_def expect_def)
qed

text \<open>
  C3 at the largest \<^verbatim>\<open>int64_t\<close>, at a wrong name, and at a stream that starts with a
  newline.
\<close>

theorem parseVersionNumber_header_witness:
  "(0::int) \<le> sint (9223372036854775807 :: 64 word)
   \<and> first_mismatch version_statement_kinds
        [Token TK_IDENT ''op_version_set'', Token (TK_CHAR CHR ''='') ''='',
         Token TK_NUMBER ''9223372036854775807'', Token TK_NEWLINE [CHR 0x0A]] = None
   \<and> parseVersionNumber (\<lambda>t. True) (\<lambda>t. 9223372036854775807)
        [Token TK_IDENT ''op_version_set'', Token (TK_CHAR CHR ''='') ''='',
         Token TK_NUMBER ''9223372036854775807'', Token TK_NEWLINE [CHR 0x0A]] =
       Inr (9223372036854775807, [])
   \<and> parseVersionNumber (\<lambda>t. True) (\<lambda>t. 3)
        [Token TK_IDENT ''version'', Token (TK_CHAR CHR ''='') ''='',
         Token TK_NUMBER ''3'', Token TK_NEWLINE [CHR 0x0A]] =
       Inl (MalformedHeader ''expected an assignment to op_version_set'')
   \<and> first_mismatch version_statement_kinds [Token TK_NEWLINE [CHR 0x0A]] = Some TK_IDENT
   \<and> parseVersionNumber (\<lambda>t. True) (\<lambda>t. 3) [Token TK_NEWLINE [CHR 0x0A]] =
       Inl (ExpectedToken TK_IDENT)"
  using parseVersionNumber_header [where isIntegral = "\<lambda>t. True"
      and asIntegral = "\<lambda>t. 9223372036854775807"
      and name = "''op_version_set''" and eq = "''=''" and v = "''9223372036854775807''"
      and nl = "[CHR 0x0A]" and rest = "[]"
      and L = "[Token TK_IDENT ''op_version_set'', Token (TK_CHAR CHR ''='') ''='',
                Token TK_NUMBER ''9223372036854775807'', Token TK_NEWLINE [CHR 0x0A]]"
      and ver = 9223372036854775807 and L' = "[]" and k = TK_IDENT]
    parseVersionNumber_header [where isIntegral = "\<lambda>t. True" and asIntegral = "\<lambda>t. 3"
      and name = "''version''" and eq = "''=''" and v = "''3''"
      and nl = "[CHR 0x0A]" and rest = "[]" and L = "[Token TK_NEWLINE [CHR 0x0A]]"
      and ver = 0 and L' = "[]" and k = TK_IDENT]
  by (simp add: parseVersionNumber_def expect_def version_statement_kinds_def)

text \<open>
  C3 as stated asks for \<open>MalformedHeader\<close> on a right-hand side that is not integral. For
  \<^verbatim>\<open>op_version_set = x\<close> the third \<^verbatim>\<open>expect\<close> reports the missing number before
  \<^verbatim>\<open>parseVersionNumber\<close> looks at the statement.
\<close>

theorem parseVersionNumber_shape_counterexample:
  "parseVersionNumber (\<lambda>t. False) (\<lambda>t. 0)
      [Token TK_IDENT ''op_version_set'', Token (TK_CHAR CHR ''='') ''='',
       Token TK_IDENT ''x'', Token TK_NEWLINE [CHR 0x0A]] =
     Inl (ExpectedToken TK_NUMBER)"
  by (simp add: parseVersionNumber_def expect_def)

section \<open>Properties of the import preamble\<close>

lemma set_set_insert: "set (set_insert x xs) = insert x (set xs)"
  by (induction xs) auto

lemma sorted_set_insert: "sorted_wrt (<) xs \<Longrightarrow> sorted_wrt (<) (set_insert x xs)"
  by (induction xs) (auto simp: set_set_insert)

lemma set_fold_set_insert: "set (fold set_insert xs acc) = set xs \<union> set acc"
  by (induction xs arbitrary: acc) (auto simp: set_set_insert)

lemma sorted_fold_set_insert:
  "sorted_wrt (<) acc \<Longrightarrow> sorted_wrt (<) (fold set_insert xs acc)"
  by (induction xs arbitrary: acc) (auto simp: sorted_set_insert)

lemma fold_set_insert_sorted_list:
  "fold set_insert xs [] = sorted_list_of_set (set xs)"
proof -
  have "sorted_wrt (<) (fold set_insert xs [])"
    by (simp add: sorted_fold_set_insert)
  moreover have "set (fold set_insert xs []) = set xs"
    by (simp add: set_fold_set_insert)
  ultimately show ?thesis
    by (metis sorted_list_of_set.idem_if_sorted_distinct strict_sorted_iff)
qed

lemma import_name_line:
  "list_all (\<lambda>t. tok_kind t \<noteq> TK_NEWLINE) toks \<Longrightarrow> tok_kind nl = TK_NEWLINE \<Longrightarrow>
     import_name (toks @ nl # rest) s = Some (s @ concat (map tok_text toks), nl # rest)"
  by (induction toks arbitrary: s) auto

lemma import_name_drop:
  "import_name L s = Some (str, L') \<Longrightarrow> \<exists>k. L' = drop k L \<and> k < length L"
proof (induction L arbitrary: s)
  case Nil
  then show ?case by simp
next
  case (Cons t ts)
  show ?case
  proof (cases "tok_kind t = TK_NEWLINE")
    case True
    then have "L' = drop 0 (t # ts)" using Cons.prems by simp
    then show ?thesis by blast
  next
    case False
    then obtain k where "L' = drop k ts" "k < length ts"
      using Cons by auto
    then have "L' = drop (Suc k) (t # ts) \<and> Suc k < length (t # ts)" by simp
    then show ?thesis by blast
  qed
qed

lemma import_name_head: "import_name L s = Some (str, L') \<Longrightarrow> L' \<noteq> [] \<and> tok_kind (hd L') = TK_NEWLINE"
  by (induction L arbitrary: s) (auto split: if_splits)

lemma import_name_prefix: "import_name L s = Some (str, L') \<Longrightarrow> length s \<le> length str"
proof (induction L arbitrary: s)
  case Nil
  then show ?case by simp
next
  case (Cons t ts)
  then show ?case
    by (cases "tok_kind t = TK_NEWLINE") (auto dest!: Cons.IH)
qed

lemma parseImports_loop_done:
  "\<not> starts_with_import L \<Longrightarrow> parseImports_loop L acc = Some (Inr (acc, L))"
  by (subst parseImports_loop.simps)
     (auto simp: starts_with_import_def nextIf_def split: list.splits)

lemma parseImports_loop_statement:
  assumes "is_import_statement line"
  shows "parseImports_loop (line @ rest) acc =
           (if statement_name line = [] then Some (Inl AssertFailure)
            else parseImports_loop rest (set_insert (statement_name line) acc))"
proof -
  obtain i ts where line: "line = i # ts" and i: "tok_kind i = TK_IMPORT"
    and ts: "ts \<noteq> []" and nl: "tok_kind (last ts) = TK_NEWLINE"
    and mid: "list_all (\<lambda>t. tok_kind t \<noteq> TK_NEWLINE) (butlast ts)"
    using assms by (auto simp: is_import_statement_def split: list.splits)
  have e: "ts @ rest = butlast ts @ last ts # rest"
    using ts by (metis append_butlast_last_id append.assoc append_Cons append_Nil)
  have nm: "import_name (ts @ rest) [] =
      Some (concat (map tok_text (butlast ts)), last ts # rest)"
    unfolding e using import_name_line [OF mid nl, of rest "[]"] by simp
  show ?thesis
    using i nl nm
    by (subst parseImports_loop.simps)
       (simp add: line nextIf_def expect_def statement_name_def)
qed

lemma parseImports_loop_lines:
  assumes "list_all is_import_statement lines"
    and "list_all (\<lambda>l. statement_name l \<noteq> []) lines"
    and "\<not> starts_with_import rest"
  shows "parseImports_loop (concat lines @ rest) acc =
           Some (Inr (fold set_insert (map statement_name lines) acc, rest))"
  using assms
proof (induction lines arbitrary: acc)
  case Nil
  then show ?case by (simp add: parseImports_loop_done)
next
  case (Cons l ls)
  then show ?case
    by (simp add: parseImports_loop_statement)
qed

lemma parseImports_lines:
  assumes "list_all is_import_statement lines"
    and "list_all (\<lambda>l. statement_name l \<noteq> []) lines"
    and "\<not> starts_with_import rest"
  shows "parseImports (concat lines @ rest) =
           Some (Inr (sorted_list_of_set (set (map statement_name lines)), rest))"
  using parseImports_loop_lines [OF assms]
  by (simp add: parseImports_def fold_set_insert_sorted_list)

text \<open>What holds of every run of the loop, on any token stream.\<close>

lemma parseImports_loop_result:
  assumes "parseImports_loop L acc = Some (Inr (imps, L'))"
    and "sorted_wrt (<) acc" and "\<forall>n\<in>set acc. n \<noteq> []"
  shows "sorted_wrt (<) imps \<and> (\<forall>n\<in>set imps. n \<noteq> []) \<and> (\<exists>k. L' = drop k L)"
  using assms
proof (induction L acc rule: parseImports_loop.induct)
  case (1 L acc)
  show ?case
  proof (cases "nextIf TK_IMPORT L")
    case (Pair b L1)
    show ?thesis
    proof (cases b)
      case False
      then have "imps = acc" "L' = drop 0 L"
        using "1.prems"(1) Pair
        by (subst (asm) parseImports_loop.simps; auto simp: nextIf_def split: list.splits if_splits)+
      then show ?thesis using "1.prems" by blast
    next
      case True
      then have L1: "L1 = drop 1 L"
        using Pair by (auto simp: nextIf_def split: list.splits if_splits)
      from "1.prems"(1) Pair True obtain str L2 nl L3 where
        nm: "import_name L1 [] = Some (str, L2)" and ex: "expect TK_NEWLINE L2 = Inr (nl, L3)"
        and str: "str \<noteq> []"
        and rec: "parseImports_loop L3 (set_insert str acc) = Some (Inr (imps, L'))"
        by (subst (asm) parseImports_loop.simps)
           (auto split: option.splits sum.splits if_splits prod.splits)
      have bT: "b = True" using True by simp
      have s1: "sorted_wrt (<) (set_insert str acc)"
        and s2: "\<forall>n\<in>set (set_insert str acc). n \<noteq> []"
        using "1.prems" str by (auto simp: sorted_set_insert set_set_insert)
      have ih: "sorted_wrt (<) imps \<and> (\<forall>n\<in>set imps. n \<noteq> []) \<and> (\<exists>k. L' = drop k L3)"
        by (rule "1.IH" [OF Pair [symmetric] bT nm refl ex refl str rec s1 s2])
      obtain k2 where "L2 = drop k2 L1" using import_name_drop [OF nm] by blast
      moreover have "L3 = drop 1 L2"
        using ex by (auto simp: expect_def split: list.splits if_splits)
      ultimately have "\<exists>k. L' = drop k L"
        using ih L1 by (metis drop_drop)
      then show ?thesis using ih by blast
    qed
  qed
qed

lemma parseImports_loop_error:
  "parseImports_loop L acc = Some (Inl e) \<Longrightarrow> e = AssertFailure"
proof (induction L acc rule: parseImports_loop.induct)
  case (1 L acc)
  show ?case
  proof (cases "nextIf TK_IMPORT L")
    case (Pair b L1)
    show ?thesis
    proof (cases b)
      case False
      then show ?thesis
        using "1.prems" Pair by (subst (asm) parseImports_loop.simps) simp
    next
      case True
      then have bT: "b = True" by simp
      from "1.prems" Pair True obtain str L2 where
        nm: "import_name L1 [] = Some (str, L2)"
        by (subst (asm) parseImports_loop.simps) (auto split: option.splits)
      obtain nl L3 where ex: "expect TK_NEWLINE L2 = Inr (nl, L3)"
        using import_name_head [OF nm] by (cases L2) (auto simp: expect_def)
      show ?thesis
      proof (cases "str = []")
        case True
        then show ?thesis
          using "1.prems" Pair \<open>b\<close> nm ex by (subst (asm) parseImports_loop.simps) simp
      next
        case False
        then have "parseImports_loop L3 (set_insert str acc) = Some (Inl e)"
          using "1.prems" Pair \<open>b\<close> nm ex by (subst (asm) parseImports_loop.simps) simp
        then show ?thesis
          using "1.IH" [OF Pair [symmetric] bT nm refl ex refl False] by blast
      qed
    qed
  qed
qed

lemma no_bare_import_drop: "no_bare_import L \<Longrightarrow> no_bare_import (drop k L)"
proof (induction k arbitrary: L)
  case 0
  then show ?case by simp
next
  case (Suc k)
  show ?case
  proof (cases L)
    case Nil
    then show ?thesis by simp
  next
    case (Cons a as)
    then have "no_bare_import as" using Suc.prems by (cases as) auto
    then show ?thesis using Cons Suc.IH by simp
  qed
qed

lemma import_followed_by_text_drop:
  "import_followed_by_text L \<Longrightarrow> import_followed_by_text (drop k L)"
proof (induction k arbitrary: L)
  case 0
  then show ?case by simp
next
  case (Suc k)
  show ?case
  proof (cases L)
    case Nil
    then show ?thesis by simp
  next
    case (Cons a as)
    then have "import_followed_by_text as" using Suc.prems by (cases as) auto
    then show ?thesis using Cons Suc.IH by simp
  qed
qed

lemma parseImports_loop_no_assert:
  assumes "no_bare_import L" and "import_followed_by_text L"
  shows "parseImports_loop L acc \<noteq> Some (Inl e)"
  using assms
proof (induction L acc rule: parseImports_loop.induct)
  case (1 L acc)
  show ?case
  proof (cases "nextIf TK_IMPORT L")
    case (Pair b L1)
    show ?thesis
    proof (cases b)
      case False
      then show ?thesis
        using Pair by (subst parseImports_loop.simps) simp
    next
      case True
      then have bT: "b = True" by simp
      obtain i where L: "L = i # L1" and i: "tok_kind i = TK_IMPORT"
        using Pair True by (auto simp: nextIf_def split: list.splits if_splits)
      show ?thesis
      proof (cases "import_name L1 []")
        case None
        then show ?thesis
          using Pair True by (subst parseImports_loop.simps) simp
      next
        case (Some p)
        obtain str L2 where p: "p = (str, L2)" by (cases p)
        have nm: "import_name L1 [] = Some (str, L2)" using Some p by simp
        obtain nl L3 where ex: "expect TK_NEWLINE L2 = Inr (nl, L3)"
          using import_name_head [OF nm] by (cases L2) (auto simp: expect_def)
        obtain t ts where L1: "L1 = t # ts"
          using nm by (cases L1) auto
        have k: "tok_kind t \<noteq> TK_NEWLINE"
          using "1.prems"(1) L L1 i by simp
        then have tx: "tok_text t \<noteq> []"
          using "1.prems"(2) L L1 i by simp
        have "import_name ts (tok_text t) = Some (str, L2)"
          using nm L1 k by simp
        then have str: "str \<noteq> []"
          using tx import_name_prefix by fastforce
        obtain k2 where "L2 = drop k2 L1" using import_name_drop [OF nm] by blast
        moreover have "L3 = drop 1 L2"
          using ex by (auto simp: expect_def split: list.splits if_splits)
        moreover have "L1 = drop 1 L" using L by simp
        ultimately have "\<exists>k. L3 = drop k L" by (metis drop_drop)
        then have "no_bare_import L3" "import_followed_by_text L3"
          using "1.prems" no_bare_import_drop import_followed_by_text_drop by auto
        then have "parseImports_loop L3 (set_insert str acc) \<noteq> Some (Inl e)"
          using "1.IH" [OF Pair [symmetric] bT nm refl ex refl str] by blast
        then show ?thesis
          using Pair True nm ex str by (subst parseImports_loop.simps) simp
      qed
    qed
  qed
qed

text \<open>
  The assertion fails exactly on a stream that begins with import statements of which
  the first without text follows statements that all have some.
\<close>

lemma import_name_split:
  assumes "import_name L s = Some (str, L')"
  shows "\<exists>toks nl rest. L = toks @ nl # rest \<and> L' = nl # rest
           \<and> list_all (\<lambda>t. tok_kind t \<noteq> TK_NEWLINE) toks \<and> tok_kind nl = TK_NEWLINE
           \<and> str = s @ concat (map tok_text toks)"
  using assms
proof (induction L arbitrary: s)
  case Nil
  then show ?case by simp
next
  case (Cons t ts)
  show ?case
  proof (cases "tok_kind t = TK_NEWLINE")
    case True
    then have "t # ts = [] @ t # ts \<and> L' = t # ts
        \<and> list_all (\<lambda>t. tok_kind t \<noteq> TK_NEWLINE) [] \<and> tok_kind t = TK_NEWLINE
        \<and> str = s @ concat (map tok_text [])"
      using Cons.prems by simp
    then show ?thesis by blast
  next
    case False
    then have "import_name ts (s @ tok_text t) = Some (str, L')"
      using Cons.prems by simp
    from Cons.IH [OF this] obtain toks nl rest where
      r: "ts = toks @ nl # rest" "L' = nl # rest"
        "list_all (\<lambda>t. tok_kind t \<noteq> TK_NEWLINE) toks" "tok_kind nl = TK_NEWLINE"
        "str = (s @ tok_text t) @ concat (map tok_text toks)"
      by blast
    have "t # ts = (t # toks) @ nl # rest \<and> L' = nl # rest
          \<and> list_all (\<lambda>t. tok_kind t \<noteq> TK_NEWLINE) (t # toks) \<and> tok_kind nl = TK_NEWLINE
          \<and> str = s @ concat (map tok_text (t # toks))"
      using r False by simp
    then show ?thesis by blast
  qed
qed

lemma parseImports_loop_assert_lines:
  assumes "list_all is_import_statement lines"
    and "list_all (\<lambda>l. statement_name l \<noteq> []) lines"
    and "is_import_statement line" and "statement_name line = []"
  shows "parseImports_loop (concat lines @ line @ rest) acc = Some (Inl AssertFailure)"
  using assms
proof (induction lines arbitrary: acc)
  case Nil
  then show ?case by (simp add: parseImports_loop_statement)
next
  case (Cons l ls)
  then show ?case by (simp add: parseImports_loop_statement)
qed

lemma parseImports_loop_assert_split:
  assumes "parseImports_loop L acc = Some (Inl AssertFailure)"
  shows "\<exists>lines line rest. L = concat lines @ line @ rest
           \<and> list_all is_import_statement lines
           \<and> list_all (\<lambda>l. statement_name l \<noteq> []) lines
           \<and> is_import_statement line \<and> statement_name line = []"
  using assms
proof (induction L acc rule: parseImports_loop.induct)
  case (1 L acc)
  show ?case
  proof (cases "nextIf TK_IMPORT L")
    case (Pair b L1)
    show ?thesis
    proof (cases b)
      case False
      then show ?thesis
        using Pair "1.prems" by (subst (asm) parseImports_loop.simps) simp
    next
      case True
      then have bT: "b = True" by simp
      obtain i where L: "L = i # L1" and i: "tok_kind i = TK_IMPORT"
        using Pair True by (auto simp: nextIf_def split: list.splits if_splits)
      show ?thesis
      proof (cases "import_name L1 []")
        case None
        then show ?thesis
          using Pair True "1.prems" by (subst (asm) parseImports_loop.simps) simp
      next
        case (Some p)
        obtain str L2 where p: "p = (str, L2)" by (cases p)
        have nm: "import_name L1 [] = Some (str, L2)" using Some p by simp
        from import_name_split [OF nm] obtain toks nl L3 where
          s: "L1 = toks @ nl # L3" "L2 = nl # L3"
            "list_all (\<lambda>t. tok_kind t \<noteq> TK_NEWLINE) toks" "tok_kind nl = TK_NEWLINE"
            "str = concat (map tok_text toks)"
          by auto
        have ex: "expect TK_NEWLINE L2 = Inr (nl, L3)"
          using s by (simp add: expect_def)
        define line where "line = i # toks @ [nl]"
        have line: "is_import_statement line" "statement_name line = str" "L = line @ L3"
          using i s L by (simp_all add: line_def is_import_statement_def statement_name_def)
        show ?thesis
        proof (cases "str = []")
          case True
          then have "L = concat [] @ line @ L3 \<and> list_all is_import_statement []
              \<and> list_all (\<lambda>l. statement_name l \<noteq> []) []
              \<and> is_import_statement line \<and> statement_name line = []"
            using line by simp
          then show ?thesis by blast
        next
          case False
          have "parseImports_loop L3 (set_insert str acc) = Some (Inl AssertFailure)"
            using "1.prems" Pair True nm ex False
            by (subst (asm) parseImports_loop.simps) simp
          from "1.IH" [OF Pair [symmetric] bT nm refl ex refl False this]
          obtain lines line' rest where
            r: "L3 = concat lines @ line' @ rest" "list_all is_import_statement lines"
              "list_all (\<lambda>l. statement_name l \<noteq> []) lines"
              "is_import_statement line'" "statement_name line' = []"
            by blast
          have "L = concat (line # lines) @ line' @ rest
              \<and> list_all is_import_statement (line # lines)
              \<and> list_all (\<lambda>l. statement_name l \<noteq> []) (line # lines)
              \<and> is_import_statement line' \<and> statement_name line' = []"
            using r line False by simp
          then show ?thesis by blast
        qed
      qed
    qed
  qed
qed

text \<open>
  Claim C8. Every name \<^verbatim>\<open>parseImports\<close> returns is non-empty. The only error it raises
  itself is the failed assertion, which is an \<open>AssertFailure\<close> and none of the user errors,
  and it raises it exactly when the stream begins with import statements of which one,
  after statements that all have a name, has an empty name. When the lexer never yields
  an import keyword immediately followed by a line terminator, the assertion cannot fail.
  The lexer is outside the file: that the token it yields after an import keyword, on the
  same line, spans text is its contract, taken from the grammar of an import statement,
  and is a hypothesis here.
\<close>

theorem parseImports_names_nonempty:
  "(parseImports L = Some (Inr (imps, L')) \<longrightarrow> (\<forall>n\<in>set imps. n \<noteq> []))
   \<and> (parseImports L = Some (Inl e) \<longrightarrow> e = AssertFailure)
   \<and> (parseImports L = Some (Inl AssertFailure) \<longleftrightarrow>
        (\<exists>lines line rest. L = concat lines @ line @ rest
           \<and> list_all is_import_statement lines
           \<and> list_all (\<lambda>l. statement_name l \<noteq> []) lines
           \<and> is_import_statement line \<and> statement_name line = []))
   \<and> (no_bare_import L \<and> import_followed_by_text L \<longrightarrow>
        parseImports L \<noteq> Some (Inl AssertFailure))"
proof -
  have "parseImports L = Some (Inl AssertFailure)"
    if "L = concat lines @ line @ rest" "list_all is_import_statement lines"
      "list_all (\<lambda>l. statement_name l \<noteq> []) lines"
      "is_import_statement line" "statement_name line = []" for lines line rest
    using parseImports_loop_assert_lines [OF that(2-5)] that(1) by (simp add: parseImports_def)
  then have iff: "parseImports L = Some (Inl AssertFailure) \<longleftrightarrow>
        (\<exists>lines line rest. L = concat lines @ line @ rest
           \<and> list_all is_import_statement lines
           \<and> list_all (\<lambda>l. statement_name l \<noteq> []) lines
           \<and> is_import_statement line \<and> statement_name line = [])"
    using parseImports_loop_assert_split [of L "[]"] unfolding parseImports_def by blast
  show ?thesis
    using parseImports_loop_result [of L "[]" imps L']
      parseImports_loop_error [where L = L and acc = "[]" and e = e]
      parseImports_loop_no_assert [where L = L and e = AssertFailure and acc = "[]"] iff
    by (simp add: parseImports_def)
qed

lemmas lexer_eval = parseImports_def parseImports_loop.simps nextIf_def expect_def

text \<open>C8 on \<^verbatim>\<open>import foo\<close> and on an import keyword followed by the line terminator.\<close>

theorem parseImports_names_nonempty_witness:
  "parseImports [Token TK_IMPORT ''import'', Token TK_IDENT ''foo'', Token TK_NEWLINE ''''] =
     Some (Inr ([''foo''], []))
   \<and> ''foo'' \<noteq> []
   \<and> parseImports [Token TK_IMPORT ''import'', Token TK_NEWLINE ''''] = Some (Inl AssertFailure)
   \<and> no_bare_import [Token TK_IMPORT ''import'', Token TK_IDENT ''foo'', Token TK_NEWLINE '''']
   \<and> import_followed_by_text
        [Token TK_IMPORT ''import'', Token TK_IDENT ''foo'', Token TK_NEWLINE '''']
   \<and> parseImports [Token TK_IMPORT ''import'', Token TK_IDENT ''foo'', Token TK_NEWLINE ''''] \<noteq>
       Some (Inl AssertFailure)"
  using parseImports_names_nonempty
      [where L = "[Token TK_IMPORT ''import'', Token TK_IDENT ''foo'', Token TK_NEWLINE '''']"
        and imps = "[''foo'']" and L' = "[]" and e = AssertFailure]
    parseImports_names_nonempty
      [where L = "[Token TK_IMPORT ''import'', Token TK_NEWLINE '''']"
        and imps = "[]" and L' = "[]" and e = AssertFailure]
  by (simp add: lexer_eval)

section \<open>Properties of the class namespaces\<close>

text \<open>
  Claim C5, as amended. Let a type be registered under \<^verbatim>\<open>__torch__.A.B\<close> and none under
  \<^verbatim>\<open>__torch__.A\<close>. Resolving the root token \<^verbatim>\<open>__torch__\<close> yields the namespace of that
  name, its attribute \<^verbatim>\<open>A\<close> the namespace \<^verbatim>\<open>__torch__.A\<close>, and the attribute \<^verbatim>\<open>B\<close> of
  that the class value of the registered type. On any namespace \<open>Q\<close>, an attribute \<open>a\<close>
  with no type registered under \<open>Q.a\<close> yields the namespace \<open>Q.a\<close>.
\<close>

theorem namespace_chain:
  fixes r :: "'c SourceResolver"
  shows
  "(reg [''__torch__'', A, B] = Some ty \<and> reg [''__torch__'', A] = None \<longrightarrow>
      resolveValue r ''__torch__'' = Some (ClassNamespaceValue [''__torch__''])
      \<and> ClassNamespaceValue_attr reg [''__torch__''] A =
          (ClassNamespaceValue [''__torch__'', A] :: 'c SugaredValue)
      \<and> ClassNamespaceValue_attr reg [''__torch__'', A] B = (ClassValue ty :: 'c SugaredValue))
   \<and> (reg (Q @ [a]) = None \<longrightarrow>
      ClassNamespaceValue_attr reg Q a = (ClassNamespaceValue (Q @ [a]) :: 'c SugaredValue))"
  by (simp add: resolveValue_def env_def ClassNamespaceValue_attr_def QualifiedName_create_def
      ClassType_get_def)

text \<open>C5 with one type, registered as \<^verbatim>\<open>__torch__.A.B\<close>.\<close>

theorem namespace_chain_witness:
  "resolveValue (SourceResolver 1 [0::nat]) ''__torch__'' =
     Some (ClassNamespaceValue [''__torch__''])
   \<and> ClassNamespaceValue_attr [[''__torch__'', ''A'', ''B''] \<mapsto> ClassType [''__torch__'', ''A'', ''B''] 0]
        [''__torch__''] ''A'' =
       (ClassNamespaceValue [''__torch__'', ''A''] :: nat SugaredValue)
   \<and> ClassNamespaceValue_attr [[''__torch__'', ''A'', ''B''] \<mapsto> ClassType [''__torch__'', ''A'', ''B''] 0]
        [''__torch__'', ''A''] ''B'' =
       (ClassValue (ClassType [''__torch__'', ''A'', ''B''] 0) :: nat SugaredValue)
   \<and> ClassNamespaceValue_attr [[''__torch__'', ''A'', ''B''] \<mapsto> ClassType [''__torch__'', ''A'', ''B''] 0]
        [''__torch__'', ''A''] ''C'' =
       (ClassNamespaceValue [''__torch__'', ''A'', ''C''] :: nat SugaredValue)"
  using namespace_chain
      [where reg = "[[''__torch__'', ''A'', ''B''] \<mapsto> ClassType [''__torch__'', ''A'', ''B''] 0]"
        and A = "''A''" and B = "''B''" and ty = "ClassType [''__torch__'', ''A'', ''B''] 0"
        and r = "SourceResolver 1 [0::nat]" and Q = "[''__torch__'', ''A'']" and a = "''C''"]
  by simp

text \<open>
  C5 as stated asks for two namespaces before the class whenever \<^verbatim>\<open>__torch__.A.B\<close> is
  registered. With a type registered under \<^verbatim>\<open>__torch__.A\<close> as well, the attribute \<^verbatim>\<open>A\<close>
  of the root is that class, not a namespace.
\<close>

theorem namespace_chain_counterexample:
  "[[''__torch__'', ''A''] \<mapsto> ClassType [''__torch__'', ''A''] 0,
    [''__torch__'', ''A'', ''B''] \<mapsto> ClassType [''__torch__'', ''A'', ''B''] 1]
     [''__torch__'', ''A'', ''B''] = Some (ClassType [''__torch__'', ''A'', ''B''] 1)
   \<and> ClassNamespaceValue_attr
        [[''__torch__'', ''A''] \<mapsto> ClassType [''__torch__'', ''A''] 0,
         [''__torch__'', ''A'', ''B''] \<mapsto> ClassType [''__torch__'', ''A'', ''B''] 1]
        [''__torch__''] ''A'' =
       (ClassValue (ClassType [''__torch__'', ''A''] 0) :: nat SugaredValue)"
  by (simp add: ClassNamespaceValue_attr_def QualifiedName_create_def ClassType_get_def)

section \<open>Properties of the drivers\<close>

lemma callbacks_of_append: "callbacks_of (xs @ ys) = callbacks_of xs @ callbacks_of ys"
  by (induction xs rule: callbacks_of.induct) auto

lemma callbacks_of_Callbacks: "callbacks_of (map Callback ns) = ns"
  by (induction ns) auto



lemma invoke_callbacks_None: "invoke_callbacks None imps st = (None, st)"
  by (induction imps) auto

lemma invoke_callbacks_ok:
  "\<forall>n\<in>set imps. cb n = None \<Longrightarrow>
     invoke_callbacks (Some cb) imps st = (None, st\<lparr>events := events st @ map Callback imps\<rparr>)"
  by (induction imps arbitrary: st) (auto simp: emit_def)

lemma invoke_callbacks_events:
  "invoke_callbacks cbo imps st = (r, st') \<Longrightarrow>
     heap st' = heap st \<and> (\<exists>k. events st' = events st @ map Callback (take k imps))"
proof (induction imps arbitrary: st)
  case Nil
  then show ?case by simp
next
  case (Cons i imps)
  show ?case
  proof (cases cbo)
    case None
    then have "st' = st" using Cons.prems by (simp add: invoke_callbacks_None)
    then have "events st' = events st @ map Callback (take 0 (i # imps))" by simp
    then show ?thesis using \<open>st' = st\<close> by blast
  next
    case (Some cb)
    show ?thesis
    proof (cases "cb i")
      case None
      then have "invoke_callbacks cbo imps (emit (Callback i) st) = (r, st')"
        using Cons.prems Some by simp
      then obtain k where "heap st' = heap (emit (Callback i) st)"
        "events st' = events (emit (Callback i) st) @ map Callback (take k imps)"
        using Cons.IH by blast
      then have "heap st' = heap st \<and> events st' = events st @ map Callback (take (Suc k) (i # imps))"
        by (simp add: emit_def)
      then show ?thesis by blast
    next
      case (Some e)
      then have "st' = emit (Callback i) st"
        using Cons.prems \<open>cbo = Some cb\<close> by simp
      then have "heap st' = heap st \<and> events st' = events st @ map Callback (take 1 (i # imps))"
        by (simp add: emit_def)
      then show ?thesis by blast
    qed
  qed
qed

lemma parse_definitions_result_aux:
  "parse_definitions pf a L acc = Some y \<Longrightarrow>
     \<forall>ds rs. y = Inr (ds, rs) \<longrightarrow>
       (\<exists>new. ds = fst acc @ new \<and> rs = snd acc @ replicate (length new) a)"
proof (induction rule: parse_definitions.raw_induct [rotated 1, consumes 1])
  case (1 pd pf a L acc y)
  show ?case
  proof (cases "L = []")
    case True
    then have "y = Inr acc" using 1(2) by simp
    then show ?thesis by (cases acc) auto
  next
    case False
    show ?thesis
    proof (intro allI impI)
      fix ds rs
      assume y: "y = Inr (ds, rs)"
      then obtain d L' where "pf L = Inr (d, L')"
        and rec: "pd pf a L' (fst acc @ [d], snd acc @ [a]) = Some (Inr (ds, rs))"
        using 1(2) False by (auto split: sum.splits)
      then obtain new where "ds = (fst acc @ [d]) @ new"
        "rs = (snd acc @ [a]) @ replicate (length new) a"
        using 1(1) [OF rec] by auto
      then have "ds = fst acc @ (d # new) \<and> rs = snd acc @ replicate (length (d # new)) a"
        by simp
      then show "\<exists>new. ds = fst acc @ new \<and> rs = snd acc @ replicate (length new) a"
        by blast
    qed
  qed
qed

lemma parse_definitions_result:
  "parse_definitions pf a L acc = Some (Inr (ds, rs)) \<Longrightarrow>
     \<exists>new. ds = fst acc @ new \<and> rs = snd acc @ replicate (length new) a"
  using parse_definitions_result_aux by blast

text \<open>The ways a call of \<^verbatim>\<open>import_methods\<close> ends.\<close>

lemma import_methods_cases:
  assumes "import_methods X m src tbl cbo st = Some (r, st')"
  obtains
    (header) e where
      "parseVersionNumber (Const_isIntegral X) (Const_asIntegral X) src = Inl e"
      "st' = st"
  | (preamble) v L1 e where
      "parseVersionNumber (Const_isIntegral X) (Const_asIntegral X) src = Inr (v, L1)"
      "parseImports L1 = Some (Inl e)"
      "st' = st"
  | (callback) v L1 imps L2 e where
      "parseVersionNumber (Const_isIntegral X) (Const_asIntegral X) src = Inr (v, L1)"
      "parseImports L1 = Some (Inr (imps, L2))"
      "invoke_callbacks cbo imps st = (Some e, st')"
  | (parse) v L1 imps L2 st1 where
      "parseVersionNumber (Const_isIntegral X) (Const_asIntegral X) src = Inr (v, L1)"
      "parseImports L1 = Some (Inr (imps, L2))"
      "invoke_callbacks cbo imps st = (None, st1)"
      "st' = st1\<lparr>heap := heap st1 @ [SourceResolverObj (SourceResolver v tbl)]\<rparr>"
  | (submitted) v L1 imps L2 st1 ds where
      "parseVersionNumber (Const_isIntegral X) (Const_asIntegral X) src = Inr (v, L1)"
      "parseImports L1 = Some (Inr (imps, L2))"
      "invoke_callbacks cbo imps st = (None, st1)"
      "st' = st1\<lparr>heap := heap st1 @ [SourceResolverObj (SourceResolver v tbl)],
                 events := events st1 @
                   [Define (ModuleUnit m) ds (replicate (length ds) (length (heap st1)))
                      (ModuleType m)]\<rparr>"
proof (cases "parseVersionNumber (Const_isIntegral X) (Const_asIntegral X) src")
  case (Inl e)
  then show ?thesis using assms header by (simp add: import_methods_def)
next
  case (Inr p)
  obtain v L1 where p: "p = (v, L1)" by (cases p)
  note pv = Inr [unfolded p]
  show ?thesis
  proof (cases "parseImports L1")
    case None
    then show ?thesis using assms pv by (simp add: import_methods_def)
  next
    case (Some q)
    show ?thesis
    proof (cases q)
      case (Inl e)
      then show ?thesis using assms pv Some preamble by (simp add: import_methods_def)
    next
      case (Inr iL)
      obtain imps L2 where iL: "iL = (imps, L2)" by (cases iL)
      have pi: "parseImports L1 = Some (Inr (imps, L2))" using Some Inr iL by simp
      obtain ce st1 where ic: "invoke_callbacks cbo imps st = (ce, st1)"
        by (cases "invoke_callbacks cbo imps st")
      show ?thesis
      proof (cases ce)
        case (Some e)
        then have "st' = st1" using assms pv pi ic by (simp add: import_methods_def)
        then show ?thesis using callback [OF pv pi] ic Some by simp
      next
        case None
        let ?st2 = "st1\<lparr>heap := heap st1 @ [SourceResolverObj (SourceResolver v tbl)]\<rparr>"
        let ?a = "length (heap st1)"
        show ?thesis
        proof (cases "parse_definitions (parseFunction X True) ?a L2 ([], [])")
          case None
          then show ?thesis
            using assms pv pi ic \<open>ce = None\<close> by (simp add: import_methods_def make_shared_def)
        next
          case (Some pr)
          show ?thesis
          proof (cases pr)
            case (Inl e)
            then have "st' = ?st2"
              using assms pv pi ic \<open>ce = None\<close> Some
              by (simp add: import_methods_def make_shared_def)
            then show ?thesis using parse [OF pv pi] ic \<open>ce = None\<close> by simp
          next
            case (Inr dr)
            obtain ds rs where dr: "dr = (ds, rs)" by (cases dr)
            have pd: "parse_definitions (parseFunction X True) ?a L2 ([], []) = Some (Inr (ds, rs))"
              using Some Inr dr by simp
            then have rs: "rs = replicate (length ds) ?a"
              using parse_definitions_result [OF pd] by auto
            have "st' = emit (Define (ModuleUnit m) ds rs (ModuleType m)) ?st2"
              using assms pv pi ic \<open>ce = None\<close> pd
              by (auto simp: import_methods_def make_shared_def Let_def split: option.splits)
            then show ?thesis
              using submitted [OF pv pi, of st1 ds] ic \<open>ce = None\<close> rs by (simp add: emit_def)
          qed
        qed
      qed
    qed
  qed
qed

lemma pair_methods_result:
  "pair_methods a ms acc = (fst acc @ ms, snd acc @ replicate (length ms) a)"
  by (induction ms arbitrary: acc) (auto simp: replicate_append_same)

text \<open>The ways one turn of the loop of \<^verbatim>\<open>import_libs\<close> ends.\<close>

lemma import_libs_body_cases:
  assumes "import_libs_body X q v tbl cbo L st = Some (r, st')"
  obtains
    (preamble) e where
      "parseImports L = Some (Inl e)" "st' = st" "r = Inl e"
  | (callback) imps L1 e where
      "parseImports L = Some (Inr (imps, L1))"
      "invoke_callbacks cbo imps st = (Some e, st')" "r = Inl e"
  | (parse) imps L1 st1 e where
      "parseImports L = Some (Inr (imps, L1))"
      "invoke_callbacks cbo imps st = (None, st1)"
      "parseClass X L1 = Inl e"
      "st' = st1\<lparr>heap := heap st1 @ [SourceResolverObj (SourceResolver v tbl)]\<rparr>"
      "r = Inl e"
  | (submitted) imps L1 st1 cd L2 ct where
      "parseImports L = Some (Inr (imps, L1))"
      "invoke_callbacks cbo imps st = (None, st1)"
      "parseClass X L1 = Inr (cd, L2)"
      "ct = ClassType (QualifiedName_createFromDotted (q @ ''.'' @ ClassDef_name cd))
              (Suc (length (heap st1)))"
      "st' = st1\<lparr>heap := heap st1 @ [SourceResolverObj (SourceResolver v tbl), CompilationUnitObj],
                 events := events st1 @
                   [Create ct,
                    Define (FreshUnit (Suc (length (heap st1)))) (ClassDef_defs cd)
                      (replicate (length (ClassDef_defs cd)) (length (heap st1))) (OfClass ct)]\<rparr>"
      "r = (case cu_define X (FreshUnit (Suc (length (heap st1)))) (ClassDef_defs cd)
                   (replicate (length (ClassDef_defs cd)) (length (heap st1))) (OfClass ct) of
              Some e \<Rightarrow> Inl e
            | None \<Rightarrow> Inr L2)"
proof (cases "parseImports L")
  case None
  then show ?thesis using assms by (simp add: import_libs_body_def)
next
  case (Some q')
  show ?thesis
  proof (cases q')
    case (Inl e)
    then show ?thesis using assms Some preamble by (simp add: import_libs_body_def)
  next
    case (Inr iL)
    obtain imps L1 where iL: "iL = (imps, L1)" by (cases iL)
    have pi: "parseImports L = Some (Inr (imps, L1))" using Some Inr iL by simp
    obtain ce st1 where ic: "invoke_callbacks cbo imps st = (ce, st1)"
      by (cases "invoke_callbacks cbo imps st")
    show ?thesis
    proof (cases ce)
      case (Some e)
      then have "st' = st1" "r = Inl e" using assms pi ic by (simp_all add: import_libs_body_def)
      then show ?thesis using callback [OF pi] ic Some by simp
    next
      case None
      show ?thesis
      proof (cases "parseClass X L1")
        case (Inl e)
        then have "st' = st1\<lparr>heap := heap st1 @ [SourceResolverObj (SourceResolver v tbl)]\<rparr>"
          "r = Inl e"
          using assms pi ic None by (simp_all add: import_libs_body_def make_shared_def)
        then show ?thesis using parse [OF pi _ Inl] ic None by simp
      next
        case (Inr cL)
        obtain cd L2 where cL: "cL = (cd, L2)" by (cases cL)
        have pc: "parseClass X L1 = Inr (cd, L2)" using Inr cL by simp
        show ?thesis
          using assms pi ic None pc
          by (intro submitted [OF pi _ pc refl])
             (auto simp: import_libs_body_def make_shared_def emit_def pair_methods_result Let_def
               split: option.splits)
      qed
    qed
  qed
qed

lemmas driver_eval =
  import_methods_def import_libs_def import_libs_body_def import_libs_loop.simps
  parse_definitions.simps parseVersionNumber_def lexer_eval make_shared_def emit_def
  sample_collaborators_def sample_parseFunction_def sample_parseClass_def sample_header_def
  sample_import_def empty_state_def QualifiedName_createFromDotted_def new_events_def
  is_import_statement_def statement_name_def starts_with_import_def Let_def

lemma preamble_callbacks:
  assumes "list_all is_import_statement lines"
    and "list_all (\<lambda>l. statement_name l \<noteq> []) lines"
    and "\<not> starts_with_import rest"
    and "\<forall>n\<in>set (map statement_name lines). cb n = None"
    and "N = sorted_list_of_set (set (map statement_name lines))"
  shows "parseImports (concat lines @ rest) = Some (Inr (N, rest))"
    and "invoke_callbacks (Some cb) N st = (None, st\<lparr>events := events st @ map Callback N\<rparr>)"
  using assms by (simp_all add: parseImports_lines invoke_callbacks_ok)

lemma import_methods_callbacks:
  assumes "list_all is_import_statement lines"
    and "list_all (\<lambda>l. statement_name l \<noteq> []) lines"
    and "\<not> starts_with_import rest"
    and "\<forall>n\<in>set (map statement_name lines). cb n = None"
    and pv: "parseVersionNumber (Const_isIntegral X) (Const_asIntegral X) src =
           Inr (v, concat lines @ rest)"
    and run: "import_methods X m src tbl (Some cb) st = Some (r, st')"
  shows "callbacks_of (new_events st st') = sorted_list_of_set (set (map statement_name lines))"
proof -
  define N where "N = sorted_list_of_set (set (map statement_name lines))"
  note pc = preamble_callbacks [OF assms(1-4) N_def]
  from run have "callbacks_of (new_events st st') = N"
  proof (cases rule: import_methods_cases)
    case (header e)
    then show ?thesis using pv by simp
  next
    case (preamble v L1 e)
    then show ?thesis using pv pc(1) by simp
  next
    case (callback v L1 imps L2 e)
    then have "imps = N"
      using pv pc(1) by simp
    then show ?thesis using callback(3) by (simp add: pc(2))
  next
    case (parse v L1 imps L2 st1)
    then have "imps = N"
      using pv pc(1) by simp
    then have "events st' = events st @ map Callback N"
      using parse by (auto simp: pc(2))
    then show ?thesis
      by (simp add: new_events_def callbacks_of_Callbacks)
  next
    case (submitted v L1 imps L2 st1 ds)
    then have "imps = N"
      using pv pc(1) by simp
    then have "events st' = events st @ map Callback N
        @ [Define (ModuleUnit m) ds (replicate (length ds) (length (heap st1))) (ModuleType m)]"
      using submitted by (auto simp: pc(2))
    then show ?thesis
      by (simp add: new_events_def callbacks_of_append callbacks_of_Callbacks)
  qed
  then show ?thesis by (simp add: N_def)
qed
















lemma import_methods_sorted:
  assumes "import_methods X m src tbl cbo st = Some (r, st')"
  shows "sorted_wrt (<) (callbacks_of (new_events st st'))"
proof -
  have *: "sorted_wrt (<) (callbacks_of (new_events st s))"
    if pi: "parseImports L1 = Some (Inr (imps, L2))"
      and ic: "invoke_callbacks cbo imps st = (ce, st1)"
      and ev: "events s = events st1 @ es" and es: "callbacks_of es = []"
    for L1 imps L2 ce st1 s es
  proof -
    have "sorted_wrt (<) imps"
      using parseImports_loop_result [of L1 "[]" imps L2] pi by (simp add: parseImports_def)
    moreover obtain k where "events st1 = events st @ map Callback (take k imps)"
      using invoke_callbacks_events [OF ic] by blast
    ultimately show ?thesis
      using ev es
      by (simp add: new_events_def callbacks_of_append callbacks_of_Callbacks sorted_wrt_take)
  qed
  from assms show ?thesis
  proof (cases rule: import_methods_cases)
    case (header e)
    then show ?thesis by (simp add: new_events_def)
  next
    case (preamble v L1 e)
    then show ?thesis by (simp add: new_events_def)
  next
    case (callback v L1 imps L2 e)
    then show ?thesis using * [of L1 imps L2 "Some e" st' st' "[]"] by simp
  next
    case (parse v L1 imps L2 st1)
    then show ?thesis using * [of L1 imps L2 None st1 st' "[]"] by simp
  next
    case (submitted v L1 imps L2 st1 ds)
    then show ?thesis
      using * [of L1 imps L2 None st1 st'
          "[Define (ModuleUnit m) ds (replicate (length ds) (length (heap st1))) (ModuleType m)]"]
      by simp
  qed
qed

lemma import_libs_body_sorted:
  assumes "import_libs_body X q v tbl cbo L st = Some (r, st')"
  shows "sorted_wrt (<) (callbacks_of (new_events st st'))"
proof -
  have *: "sorted_wrt (<) (callbacks_of (new_events st s))"
    if pi: "parseImports L = Some (Inr (imps, L1))"
      and ic: "invoke_callbacks cbo imps st = (ce, st1)"
      and ev: "events s = events st1 @ es" and es: "callbacks_of es = []"
    for imps L1 ce st1 s es
  proof -
    have "sorted_wrt (<) imps"
      using parseImports_loop_result [of L "[]" imps L1] pi by (simp add: parseImports_def)
    moreover obtain k where "events st1 = events st @ map Callback (take k imps)"
      using invoke_callbacks_events [OF ic] by blast
    ultimately show ?thesis
      using ev es
      by (simp add: new_events_def callbacks_of_append callbacks_of_Callbacks sorted_wrt_take)
  qed
  from assms show ?thesis
  proof (cases rule: import_libs_body_cases)
    case (preamble e)
    then show ?thesis by (simp add: new_events_def)
  next
    case (callback imps L1 e)
    then show ?thesis using * [of imps L1 "Some e" st' st' "[]"] by simp
  next
    case (parse imps L1 st1 e)
    then show ?thesis using * [of imps L1 None st1 st' "[]"] by simp
  next
    case (submitted imps L1 st1 cd L2 ct)
    then show ?thesis
      using * [of imps L1 None st1 st'
          "[Create ct,
            Define (FreshUnit (Suc (length (heap st1)))) (ClassDef_defs cd)
              (replicate (length (ClassDef_defs cd)) (length (heap st1))) (OfClass ct)]"]
      by simp
  qed
qed

text \<open>
  Claim C10. The callback invocations of a call of \<^verbatim>\<open>import_methods\<close>, and of a turn of
  the loop of \<^verbatim>\<open>import_libs\<close>, are in strictly increasing order of the names, as
  \<^verbatim>\<open>std::string\<close> compares them, whatever the token stream and the callback. When the
  preamble is well formed and the callback returns normally, the sequence of invocations
  is the increasing enumeration of the set of names: it depends on that set alone, not
  on the order of the import statements.
\<close>

theorem callbacks_in_increasing_order:
  "(import_methods X m src tbl cbo st = Some (r, st')
    \<longrightarrow> sorted_wrt (<) (callbacks_of (new_events st st')))
   \<and> (import_libs_body X q v tbl cbo L st = Some (rb, stb)
    \<longrightarrow> sorted_wrt (<) (callbacks_of (new_events st stb)))
   \<and> (list_all is_import_statement lines \<and> list_all (\<lambda>l. statement_name l \<noteq> []) lines
      \<and> \<not> starts_with_import rest \<and> (\<forall>n\<in>set (map statement_name lines). cb n = None)
      \<and> parseVersionNumber (Const_isIntegral X) (Const_asIntegral X) src =
          Inr (v, concat lines @ rest)
      \<and> import_methods X m src tbl (Some cb) st = Some (ra, sta)
    \<longrightarrow> callbacks_of (new_events st sta) =
          sorted_list_of_set (set (map statement_name lines)))"
  using import_methods_sorted [of X m src tbl cbo st r st']
    import_libs_body_sorted [of X q v tbl cbo L st rb stb]
    import_methods_callbacks [of lines rest cb X src v m tbl st ra sta]
  by simp

text \<open>C10 on \<^verbatim>\<open>import foo\<close> before \<^verbatim>\<open>import bar\<close>: \<^verbatim>\<open>bar\<close> is reported first.\<close>

theorem callbacks_in_increasing_order_witness:
  "import_methods sample_collaborators 0
      (sample_header @ sample_import ''foo'' @ sample_import ''bar'' @ [Token TK_DEF ''f''])
      [] (Some (\<lambda>n. None)) empty_state =
     Some (Inr (),
       \<lparr>events = [Callback ''bar'', Callback ''foo'', Define (ModuleUnit 0) [''f''] [0] (ModuleType 0)],
        heap = [SourceResolverObj (SourceResolver 1 [])]\<rparr>)
   \<and> callbacks_of (new_events empty_state
        \<lparr>events = [Callback ''bar'', Callback ''foo'', Define (ModuleUnit 0) [''f''] [0] (ModuleType (0::nat))],
         heap = [SourceResolverObj (SourceResolver 1 ([]::nat list))]\<rparr>) = [''bar'', ''foo'']
   \<and> sorted_wrt (<) [''bar'', ''foo'']
   \<and> sorted_list_of_set (set (map statement_name [sample_import ''foo'', sample_import ''bar''])) =
       [''bar'', ''foo'']
   \<and> import_libs_body sample_collaborators ''__torch__'' 1 [] (Some (\<lambda>n. None))
        (sample_import ''foo'' @ sample_import ''bar'' @ [Token TK_CLASS_DEF ''A''])
        empty_state =
       Some (Inr [],
         \<lparr>events = [Callback ''bar'', Callback ''foo'', Create (ClassType [''__torch__'', ''A''] 1),
                    Define (FreshUnit 1) [] [] (OfClass (ClassType [''__torch__'', ''A''] 1))],
          heap = [SourceResolverObj (SourceResolver 1 []), CompilationUnitObj]\<rparr>)"
  using callbacks_in_increasing_order
      [where lines = "[sample_import ''foo'', sample_import ''bar'']"
        and rest = "[Token TK_DEF ''f'']" and cb = "\<lambda>n. None" and X = sample_collaborators
        and src = "sample_header @ sample_import ''foo'' @ sample_import ''bar''
                     @ [Token TK_DEF ''f'']"
        and cbo = "Some (\<lambda>n. None)"
        and v = 1 and m = 0 and tbl = "[]" and st = empty_state and r = "Inr ()"
        and st' = "\<lparr>events = [Callback ''bar'', Callback ''foo'',
                               Define (ModuleUnit 0) [''f''] [0] (ModuleType 0)],
                    heap = [SourceResolverObj (SourceResolver 1 [])]\<rparr>"
        and ra = "Inr ()"
        and sta = "\<lparr>events = [Callback ''bar'', Callback ''foo'',
                               Define (ModuleUnit 0) [''f''] [0] (ModuleType 0)],
                    heap = [SourceResolverObj (SourceResolver 1 [])]\<rparr>"
        and q = "''__torch__''"
        and L = "sample_import ''foo'' @ sample_import ''bar'' @ [Token TK_CLASS_DEF ''A'']"
        and rb = "Inr []"
        and stb = "\<lparr>events = [Callback ''bar'', Callback ''foo'',
                     Create (ClassType [''__torch__'', ''A''] 1),
                     Define (FreshUnit 1) [] [] (OfClass (ClassType [''__torch__'', ''A''] 1))],
                    heap = [SourceResolverObj (SourceResolver 1 []), CompilationUnitObj]\<rparr>"]
  by (simp add: driver_eval)

lemma environments_fresh_append:
  assumes "environments_fresh v tbl h new1 objs1"
    and "environments_fresh v tbl (h + length objs1) new2 objs2"
  shows "environments_fresh v tbl h (new1 @ new2) (objs1 @ objs2)"
proof -
  have b1: "h \<le> a \<and> a < h + length objs1 \<and> objs1 ! (a - h) = SourceResolverObj (SourceResolver v tbl)"
    if "e \<in> set new1" "a \<in> set (submitted_resolvers e)" for e a
    using assms(1) that by (auto simp: environments_fresh_def)
  have b2: "h + length objs1 \<le> a \<and> a < h + length objs1 + length objs2
      \<and> objs2 ! (a - (h + length objs1)) = SourceResolverObj (SourceResolver v tbl)"
    if "e \<in> set new2" "a \<in> set (submitted_resolvers e)" for e a
    using assms(2) that by (auto simp: environments_fresh_def)
  have cross: "disjoint_environments e e'" if "e \<in> set new1" "e' \<in> set new2" for e e'
    using b1 [OF that(1)] b2 [OF that(2)] by (fastforce simp: disjoint_environments_def)
  have "sorted_wrt disjoint_environments (new1 @ new2)"
    using assms cross by (auto simp: environments_fresh_def sorted_wrt_append)
  moreover have "\<exists>a. submitted_resolvers e = replicate (length (submitted_definitions e)) a"
    if "e \<in> set (new1 @ new2)" for e
    using assms that by (auto simp: environments_fresh_def)
  moreover have "h \<le> a \<and> a < h + length (objs1 @ objs2)
      \<and> (objs1 @ objs2) ! (a - h) = SourceResolverObj (SourceResolver v tbl)"
    if "e \<in> set (new1 @ new2)" "a \<in> set (submitted_resolvers e)" for e a
  proof (cases "e \<in> set new1")
    case True
    then show ?thesis using b1 [OF True that(2)] by (auto simp: nth_append)
  next
    case False
    then have "e \<in> set new2" using that(1) by simp
    then show ?thesis
      using b2 [OF _ that(2)] by (auto simp: nth_append)
  qed
  ultimately show ?thesis
    unfolding environments_fresh_def by blast
qed

lemma environments_fresh_Nil: "environments_fresh v tbl h [] objs"
  by (simp add: environments_fresh_def)

lemma environments_fresh_no_submission:
  "\<forall>e\<in>set new. submitted_resolvers e = [] \<and> submitted_definitions e = [] \<Longrightarrow>
     environments_fresh v tbl h new objs"
proof -
  assume a: "\<forall>e\<in>set new. submitted_resolvers e = [] \<and> submitted_definitions e = []"
  then have "sorted_wrt disjoint_environments new"
    by (induction new) (auto simp: disjoint_environments_def)
  then show ?thesis using a by (simp add: environments_fresh_def)
qed

lemma callbacks_no_submission:
  "\<forall>e\<in>set (map Callback ns). submitted_resolvers e = [] \<and> submitted_definitions e = []"
  by auto

text \<open>What one turn of the loop of \<^verbatim>\<open>import_libs\<close> adds to the state.\<close>

lemma import_libs_body_adds:
  assumes "import_libs_body X q v tbl cbo L st = Some (r, st')"
  shows "\<exists>new objs. events st' = events st @ new \<and> heap st' = heap st @ objs
           \<and> environments_fresh v tbl (length (heap st)) new objs"
  using assms
proof (cases rule: import_libs_body_cases)
  case (preamble e)
  then have "events st' = events st @ [] \<and> heap st' = heap st @ []" by simp
  then show ?thesis using environments_fresh_Nil by blast
next
  case (callback imps L1 e)
  then obtain k where "heap st' = heap st @ []" "events st' = events st @ map Callback (take k imps)"
    using invoke_callbacks_events by fastforce
  then show ?thesis
    using environments_fresh_no_submission [OF callbacks_no_submission] by blast
next
  case (parse imps L1 st1 e)
  then obtain k where "heap st1 = heap st" "events st1 = events st @ map Callback (take k imps)"
    using invoke_callbacks_events by fastforce
  then have "heap st' = heap st @ [SourceResolverObj (SourceResolver v tbl)]"
    "events st' = events st @ map Callback (take k imps)"
    using parse by simp_all
  then show ?thesis
    using environments_fresh_no_submission [OF callbacks_no_submission] by blast
next
  case (submitted imps L1 st1 cd L2 ct)
  then obtain k where st1: "heap st1 = heap st" "events st1 = events st @ map Callback (take k imps)"
    using invoke_callbacks_events by fastforce
  let ?h = "length (heap st)"
  let ?D = "Define (FreshUnit (Suc ?h)) (ClassDef_defs cd)
              (replicate (length (ClassDef_defs cd)) ?h) (OfClass ct) :: ('b, 'c) event"
  let ?objs = "[SourceResolverObj (SourceResolver v tbl), CompilationUnitObj]"
  have ev: "events st' = events st @ (map Callback (take k imps) @ [Create ct, ?D])"
    and hp: "heap st' = heap st @ ?objs"
    using submitted st1 by simp_all
  have 1: "environments_fresh v tbl ?h (map Callback (take k imps)) []"
    using environments_fresh_no_submission [OF callbacks_no_submission] by blast
  have 2: "environments_fresh v tbl (?h + length ([] :: 'a object list)) [Create ct, ?D] ?objs"
    by (auto simp: environments_fresh_def disjoint_environments_def)
  have "environments_fresh v tbl ?h (map Callback (take k imps) @ [Create ct, ?D]) ([] @ ?objs)"
    by (rule environments_fresh_append [OF 1 2])
  then show ?thesis using ev hp by (metis append_Nil)
qed

lemma import_libs_loop_adds:
  assumes "import_libs_loop X q v tbl cbo L st = Some y"
  shows "\<exists>new objs. events (snd y) = events st @ new \<and> heap (snd y) = heap st @ objs
           \<and> environments_fresh v tbl (length (heap st)) new objs"
  using assms
proof (induction rule: import_libs_loop.raw_induct [rotated 1, consumes 1])
  case (1 loop X q v tbl cbo L st y)
  show ?case
  proof (cases "L = []")
    case True
    then have "events (snd y) = events st @ [] \<and> heap (snd y) = heap st @ []"
      using 1(2) by auto
    then show ?thesis using environments_fresh_Nil by blast
  next
    case False
    then obtain rb st1 where body: "import_libs_body X q v tbl cbo L st = Some (rb, st1)"
      using 1(2) by (auto split: option.splits)
    obtain new1 objs1 where a1: "events st1 = events st @ new1" "heap st1 = heap st @ objs1"
      "environments_fresh v tbl (length (heap st)) new1 objs1"
      using import_libs_body_adds [OF body] by blast
    show ?thesis
    proof (cases rb)
      case (Inl e)
      then have "snd y = st1" using 1(2) False body by auto
      then show ?thesis using a1 by blast
    next
      case (Inr L')
      then have "loop X q v tbl cbo L' st1 = Some y"
        using 1(2) False body by simp
      then obtain new2 objs2 where a2: "events (snd y) = events st1 @ new2"
        "heap (snd y) = heap st1 @ objs2"
        "environments_fresh v tbl (length (heap st1)) new2 objs2"
        using 1(1) by blast
      have "environments_fresh v tbl (length (heap st)) (new1 @ new2) (objs1 @ objs2)"
        using environments_fresh_append [OF a1(3)] a2(3) a1(2) by simp
      moreover have "events (snd y) = events st @ (new1 @ new2)"
        "heap (snd y) = heap st @ (objs1 @ objs2)"
        using a1 a2 by simp_all
      ultimately show ?thesis by blast
    qed
  qed
qed

lemma import_methods_alignment:
  assumes "import_methods X m src tbl cbo st = Some (r, st')"
  shows "(\<forall>e\<in>set (new_events st st').
            submitted_resolvers e =
              replicate (length (submitted_definitions e)) (length (heap st)))
         \<and> (\<forall>e\<in>set (new_events st st'). \<forall>a\<in>set (submitted_resolvers e).
              \<exists>v. heap st' ! a = SourceResolverObj (SourceResolver v tbl))"
  using assms
proof (cases rule: import_methods_cases)
  case (header e)
  then show ?thesis by (simp add: new_events_def)
next
  case (preamble v L1 e)
  then show ?thesis by (simp add: new_events_def)
next
  case (callback v L1 imps L2 e)
  then obtain k where "events st' = events st @ map Callback (take k imps)"
    using invoke_callbacks_events by fastforce
  then show ?thesis by (auto simp: new_events_def)
next
  case (parse v L1 imps L2 st1)
  then obtain k where "events st1 = events st @ map Callback (take k imps)"
    using invoke_callbacks_events by fastforce
  then show ?thesis using parse by (auto simp: new_events_def)
next
  case (submitted v L1 imps L2 st1 ds)
  then obtain k where "heap st1 = heap st" "events st1 = events st @ map Callback (take k imps)"
    using invoke_callbacks_events by fastforce
  then show ?thesis using submitted by (auto simp: new_events_def)
qed

lemma import_libs_alignment:
  assumes "import_libs X q src tbl cbo st = Some (r, st')"
  shows "(\<forall>e\<in>set (new_events st st').
            \<exists>a. submitted_resolvers e = replicate (length (submitted_definitions e)) a)
         \<and> sorted_wrt disjoint_environments (new_events st st')
         \<and> (\<forall>e\<in>set (new_events st st'). \<forall>a\<in>set (submitted_resolvers e).
              length (heap st) \<le> a \<and> a < length (heap st')
              \<and> (\<exists>v. heap st' ! a = SourceResolverObj (SourceResolver v tbl)))"
proof (cases "parseVersionNumber (Const_isIntegral X) (Const_asIntegral X) src")
  case (Inl e)
  then have "st' = st" using assms by (simp add: import_libs_def)
  then show ?thesis by (simp add: new_events_def)
next
  case (Inr p)
  obtain v L where "p = (v, L)" by (cases p)
  then have "import_libs_loop X q v tbl cbo L st = Some (r, st')"
    using assms Inr by (simp add: import_libs_def)
  then obtain new objs where ev: "events st' = events st @ new"
    and hp: "heap st' = heap st @ objs"
    and fr: "environments_fresh v tbl (length (heap st)) new objs"
    using import_libs_loop_adds by fastforce
  have "new_events st st' = new" using ev by (simp add: new_events_def)
  moreover have "heap st' ! a = objs ! (a - length (heap st))" if "length (heap st) \<le> a" for a
    using hp that by (simp add: nth_append)
  ultimately show ?thesis
    using fr hp unfolding environments_fresh_def by (auto simp del: replicate_eq_replicate)
qed

lemma import_libs_body_alignment:
  assumes "import_libs_body X q v tbl cbo L st = Some (r, st')"
  shows "\<forall>e\<in>set (new_events st st').
           submitted_resolvers e =
             replicate (length (submitted_definitions e)) (length (heap st))"
  using assms
proof (cases rule: import_libs_body_cases)
  case (preamble e)
  then show ?thesis by (simp add: new_events_def)
next
  case (callback imps L1 e)
  then obtain k where "events st' = events st @ map Callback (take k imps)"
    using invoke_callbacks_events by fastforce
  then show ?thesis by (auto simp: new_events_def)
next
  case (parse imps L1 st1 e)
  then obtain k where "events st1 = events st @ map Callback (take k imps)"
    using invoke_callbacks_events by fastforce
  then show ?thesis using parse by (auto simp: new_events_def)
next
  case (submitted imps L1 st1 cd L2 ct)
  then obtain k where "heap st1 = heap st" "events st1 = events st @ map Callback (take k imps)"
    using invoke_callbacks_events by fastforce
  then show ?thesis using submitted by (auto simp: new_events_def)
qed

text \<open>
  Claim C6. In every call of a driver that returns, each submission to the compiler has a
  resolver list that is as long as its definition list and holds one and the same
  environment at every position. In \<^verbatim>\<open>import_methods\<close> that environment is the first
  object the call builds, a \<^verbatim>\<open>SourceResolver\<close> over the constant table. In
  \<^verbatim>\<open>import_libs\<close> every environment submitted is a \<^verbatim>\<open>SourceResolver\<close> built during the
  call, and no environment occurs in two submissions; in each turn of its loop the
  environment submitted is the object that turn builds first.
\<close>

theorem definitions_paired_with_resolvers:
  "(import_methods X m src tbl cbo st = Some (r, st') \<longrightarrow>
      (\<forall>e\<in>set (new_events st st').
         submitted_resolvers e =
           replicate (length (submitted_definitions e)) (length (heap st)))
      \<and> (\<forall>e\<in>set (new_events st st'). \<forall>a\<in>set (submitted_resolvers e).
           \<exists>v. heap st' ! a = SourceResolverObj (SourceResolver v tbl)))
   \<and> (import_libs X q src tbl cbo st = Some (rb, stb) \<longrightarrow>
      (\<forall>e\<in>set (new_events st stb).
         \<exists>a. submitted_resolvers e = replicate (length (submitted_definitions e)) a)
      \<and> sorted_wrt disjoint_environments (new_events st stb)
      \<and> (\<forall>e\<in>set (new_events st stb). \<forall>a\<in>set (submitted_resolvers e).
           length (heap st) \<le> a \<and> a < length (heap stb)
           \<and> (\<exists>v. heap stb ! a = SourceResolverObj (SourceResolver v tbl))))
   \<and> (import_libs_body X q v tbl cbo L st = Some (rc, stc) \<longrightarrow>
      (\<forall>e\<in>set (new_events st stc).
         submitted_resolvers e =
           replicate (length (submitted_definitions e)) (length (heap st))))"
  using import_methods_alignment [of X m src tbl cbo st r st']
    import_libs_alignment [of X q src tbl cbo st rb stb]
    import_libs_body_alignment [of X q v tbl cbo L st rc stc]
  by blast

text \<open>
  C6 on two methods bound to a module, and on a unit of two classes with two methods and
  one method.
\<close>

theorem definitions_paired_with_resolvers_witness:
  "import_methods sample_collaborators 0
      (sample_header @ [Token TK_DEF ''f'', Token TK_DEF ''g''])
      [] None empty_state =
     Some (Inr (),
       \<lparr>events = [Define (ModuleUnit 0) [''f'', ''g''] [0, 0] (ModuleType 0)],
        heap = [SourceResolverObj (SourceResolver 1 [])]\<rparr>)
   \<and> import_libs sample_collaborators ''__torch__''
        (sample_header @ [Token TK_CLASS_DEF ''A'', Token TK_DEF ''f'', Token TK_DEF ''g'']
           @ [Token TK_CLASS_DEF ''B'', Token TK_DEF ''h''])
        [] None empty_state =
       Some (Inr (),
         \<lparr>events =
            [Create (ClassType [''__torch__'', ''A''] 1),
             Define (FreshUnit 1) [''f'', ''g''] [0, 0] (OfClass (ClassType [''__torch__'', ''A''] 1)),
             Create (ClassType [''__torch__'', ''B''] 3),
             Define (FreshUnit 3) [''h''] [2] (OfClass (ClassType [''__torch__'', ''B''] 3))],
          heap =
            [SourceResolverObj (SourceResolver 1 []), CompilationUnitObj,
             SourceResolverObj (SourceResolver 1 []), CompilationUnitObj]\<rparr>)
   \<and> sorted_wrt disjoint_environments
        [Create (ClassType [''__torch__'', ''A''] 1),
         Define (FreshUnit 1) [''f'', ''g''] [0, 0] (OfClass (ClassType [''__torch__'', ''A''] 1)),
         Create (ClassType [''__torch__'', ''B''] 3),
         Define (FreshUnit 3) [''h''] [2] (OfClass (ClassType [''__torch__'', ''B''] 3) :: nat self_type)]
   \<and> import_libs_body sample_collaborators ''__torch__'' 1 [] None
        [Token TK_CLASS_DEF ''A'', Token TK_DEF ''f'', Token TK_DEF ''g''] empty_state =
       Some (Inr [],
         \<lparr>events =
            [Create (ClassType [''__torch__'', ''A''] 1),
             Define (FreshUnit 1) [''f'', ''g''] [0, 0] (OfClass (ClassType [''__torch__'', ''A''] 1))],
          heap = [SourceResolverObj (SourceResolver 1 []), CompilationUnitObj]\<rparr>)"
  using definitions_paired_with_resolvers
      [where X = sample_collaborators and m = 0 and tbl = "[]" and cbo = None
        and st = empty_state and q = "''__torch__''"
        and src = "sample_header @ [Token TK_DEF ''f'', Token TK_DEF ''g'']"
        and r = "Inr ()"
        and st' = "\<lparr>events = [Define (ModuleUnit 0) [''f'', ''g''] [0, 0] (ModuleType 0)],
                    heap = [SourceResolverObj (SourceResolver 1 [])]\<rparr>"
        and rb = "Inl AssertFailure" and stb = empty_state
        and v = 1 and L = "[Token TK_CLASS_DEF ''A'', Token TK_DEF ''f'', Token TK_DEF ''g'']"
        and rc = "Inr []"
        and stc = "\<lparr>events =
            [Create (ClassType [''__torch__'', ''A''] 1),
             Define (FreshUnit 1) [''f'', ''g''] [0, 0] (OfClass (ClassType [''__torch__'', ''A''] 1))],
          heap = [SourceResolverObj (SourceResolver 1 []), CompilationUnitObj]\<rparr>"]
    definitions_paired_with_resolvers
      [where X = sample_collaborators and m = 0 and tbl = "[]" and cbo = None
        and st = empty_state and q = "''__torch__''"
        and src = "sample_header @ [Token TK_CLASS_DEF ''A'', Token TK_DEF ''f'', Token TK_DEF ''g'']
                     @ [Token TK_CLASS_DEF ''B'', Token TK_DEF ''h'']"
        and r = "Inl AssertFailure" and st' = empty_state
        and rb = "Inr ()"
        and stb = "\<lparr>events =
            [Create (ClassType [''__torch__'', ''A''] 1),
             Define (FreshUnit 1) [''f'', ''g''] [0, 0] (OfClass (ClassType [''__torch__'', ''A''] 1)),
             Create (ClassType [''__torch__'', ''B''] 3),
             Define (FreshUnit 3) [''h''] [2] (OfClass (ClassType [''__torch__'', ''B''] 3))],
          heap =
            [SourceResolverObj (SourceResolver 1 []), CompilationUnitObj,
             SourceResolverObj (SourceResolver 1 []), CompilationUnitObj]\<rparr>"
        and v = 1 and L = "[]" and rc = "Inl AssertFailure" and stc = empty_state]
  by (simp add: driver_eval disjoint_environments_def)









lemma without_callbacks_emit:
  "without_callbacks (emit e st) =
     (if is_Callback e then without_callbacks st else emit e (without_callbacks st))"
  by (simp add: without_callbacks_def emit_def)

lemma heap_without_callbacks: "heap (without_callbacks st) = heap st"
  by (simp add: without_callbacks_def)

lemma without_callbacks_heap_update:
  "without_callbacks (st\<lparr>heap := h\<rparr>) = (without_callbacks st)\<lparr>heap := h\<rparr>"
  by (simp add: without_callbacks_def)

lemma without_callbacks_invoke:
  assumes "\<forall>n. cb n = None"
  shows "\<exists>st1. invoke_callbacks (Some cb) imps st = (None, st1)
           \<and> without_callbacks st1 = without_callbacks st \<and> heap st1 = heap st"
proof -
  have "filter (\<lambda>e. \<not> is_Callback e) (map Callback imps :: ('a, 'b) event list) = []"
    by (induction imps) auto
  then show ?thesis
    using assms by (simp add: invoke_callbacks_ok without_callbacks_def)
qed

lemma import_methods_without_callback:
  assumes "\<forall>n. cb n = None"
  shows "import_methods X m src tbl None (without_callbacks st) =
           map_option (map_prod id without_callbacks) (import_methods X m src tbl (Some cb) st)"
proof -
  have ic: "\<exists>st1. invoke_callbacks (Some cb) imps st = (None, st1)
      \<and> without_callbacks st1 = without_callbacks st \<and> heap st1 = heap st" for imps
    using without_callbacks_invoke [OF assms] by blast
  show ?thesis
  proof (cases "parseVersionNumber (Const_isIntegral X) (Const_asIntegral X) src")
    case (Inl e)
    then show ?thesis by (simp add: import_methods_def)
  next
    case (Inr p)
    obtain v L1 where p: "p = (v, L1)" by (cases p)
    show ?thesis
    proof (cases "parseImports L1")
      case None
      then show ?thesis using Inr p by (simp add: import_methods_def)
    next
      case (Some pr)
      show ?thesis
      proof (cases pr)
        case (Inl e)
        then show ?thesis using Inr p Some by (simp add: import_methods_def)
      next
        case (Inr iL)
        obtain imps L2 where iL: "iL = (imps, L2)" by (cases iL)
        obtain st1 where st1: "invoke_callbacks (Some cb) imps st = (None, st1)"
          "without_callbacks st1 = without_callbacks st" "heap st1 = heap st"
          using ic by blast
        note facts = \<open>parseVersionNumber _ _ src = Inr p\<close> p Some Inr iL st1
        note rules = import_methods_def invoke_callbacks_None make_shared_def Let_def
          without_callbacks_emit heap_without_callbacks without_callbacks_heap_update
        show ?thesis
        proof (cases "parse_definitions (parseFunction X True) (length (heap st)) L2 ([], [])")
          case None
          then show ?thesis using facts by (simp add: rules)
        next
          case (Some pd)
          show ?thesis
          proof (cases pd)
            case (Inl e)
            then show ?thesis using facts Some by (simp add: rules)
          next
            case (Inr dr)
            obtain ds rs where "dr = (ds, rs)" by (cases dr)
            then show ?thesis
              using facts Some Inr
              by (cases "cu_define X (ModuleUnit m) ds rs (ModuleType m)") (simp_all add: rules)
          qed
        qed
      qed
    qed
  qed
qed

lemma import_libs_body_without_callback:
  assumes "\<forall>n. cb n = None"
  shows "import_libs_body X q v tbl None L (without_callbacks st) =
           map_option (map_prod id without_callbacks) (import_libs_body X q v tbl (Some cb) L st)"
proof (cases "parseImports L")
  case None
  then show ?thesis by (simp add: import_libs_body_def)
next
  case (Some pr)
  show ?thesis
  proof (cases pr)
    case (Inl e)
    then show ?thesis using Some by (simp add: import_libs_body_def)
  next
    case (Inr iL)
    obtain imps L1 where iL: "iL = (imps, L1)" by (cases iL)
    obtain st1 where st1: "invoke_callbacks (Some cb) imps st = (None, st1)"
      "without_callbacks st1 = without_callbacks st" "heap st1 = heap st"
      using without_callbacks_invoke [OF assms] by blast
    note facts = Some Inr iL st1
    note rules = import_libs_body_def invoke_callbacks_None make_shared_def Let_def
      without_callbacks_emit heap_without_callbacks without_callbacks_heap_update
      pair_methods_result
    show ?thesis
    proof (cases "parseClass X L1")
      case (Inl e)
      then show ?thesis using facts by (simp add: rules)
    next
      case (Inr cL)
      obtain cd L2 where "cL = (cd, L2)" by (cases cL)
      then show ?thesis
        using facts Inr
        by (cases "cu_define X (FreshUnit (Suc (length (heap st)))) (ClassDef_defs cd)
              (replicate (length (ClassDef_defs cd)) (length (heap st)))
              (OfClass (ClassType (QualifiedName_createFromDotted (q @ ''.'' @ ClassDef_name cd))
                 (Suc (length (heap st)))))")
           (simp_all add: rules)
    qed
  qed
qed

lemma import_libs_loop_drop_callback:
  assumes "import_libs_loop X q v tbl cbo L st = Some y"
  shows "\<forall>cb. cbo = Some cb \<longrightarrow> (\<forall>n. cb n = None) \<longrightarrow>
           import_libs_loop X q v tbl None L (without_callbacks st) =
             Some (map_prod id without_callbacks y)"
  using assms
proof (induction rule: import_libs_loop.raw_induct [rotated 1, consumes 1])
  case (1 loop X q v tbl cbo L st y)
  show ?case
  proof (intro allI impI)
    fix cb
    assume cbo: "cbo = Some cb" and ok: "\<forall>n. cb n = None"
    note body_eq = import_libs_body_without_callback [OF ok, of X q v tbl L st]
    show "import_libs_loop X q v tbl None L (without_callbacks st) =
            Some (map_prod id without_callbacks y)"
    proof (cases "L = []")
      case True
      then show ?thesis
        using 1(2) by (subst import_libs_loop.simps) auto
    next
      case False
      then obtain rb st1 where body: "import_libs_body X q v tbl (Some cb) L st = Some (rb, st1)"
        using 1(2) cbo by (auto split: option.splits)
      then have body': "import_libs_body X q v tbl None L (without_callbacks st) =
          Some (rb, without_callbacks st1)"
        using body_eq by simp
      show ?thesis
      proof (cases rb)
        case (Inl e)
        then have "y = (Inl e, st1)" using 1(2) False body cbo by auto
        then show ?thesis
          using False body' Inl by (subst import_libs_loop.simps) simp
      next
        case (Inr L')
        then have "loop X q v tbl cbo L' st1 = Some y"
          using 1(2) False body cbo by simp
        then have "import_libs_loop X q v tbl None L' (without_callbacks st1) =
            Some (map_prod id without_callbacks y)"
          using 1(1) cbo ok by blast
        then show ?thesis
          using False body' Inr by (subst import_libs_loop.simps) simp
      qed
    qed
  qed
qed

lemma import_libs_loop_add_callback:
  assumes "import_libs_loop X q v tbl cbo L s = Some y"
  shows "\<forall>cb st. cbo = None \<longrightarrow> (\<forall>n. cb n = None) \<longrightarrow> s = without_callbacks st \<longrightarrow>
           (\<exists>y'. import_libs_loop X q v tbl (Some cb) L st = Some y'
                  \<and> y = map_prod id without_callbacks y')"
  using assms
proof (induction rule: import_libs_loop.raw_induct [rotated 1, consumes 1])
  case (1 loop X q v tbl cbo L s y)
  show ?case
  proof (intro allI impI)
    fix cb :: callback and st :: "('a, 'b, 'c) state"
    assume cbo: "cbo = None" and ok: "\<forall>n. cb n = None" and s: "s = without_callbacks st"
    note body_eq = import_libs_body_without_callback [OF ok, of X q v tbl L st]
    show "\<exists>y'. import_libs_loop X q v tbl (Some cb) L st = Some y'
                  \<and> y = map_prod id without_callbacks y'"
    proof (cases "L = []")
      case True
      then have "import_libs_loop X q v tbl (Some cb) L st = Some (Inr (), st)"
        by (subst import_libs_loop.simps) simp
      moreover have "y = (Inr (), s)" using 1(2) True by simp
      ultimately show ?thesis using s by simp
    next
      case False
      then obtain rb s1 where body: "import_libs_body X q v tbl None L s = Some (rb, s1)"
        using 1(2) cbo by (auto split: option.splits)
      then obtain st1 where body': "import_libs_body X q v tbl (Some cb) L st = Some (rb, st1)"
        and s1: "s1 = without_callbacks st1"
        using body_eq s by auto
      show ?thesis
      proof (cases rb)
        case (Inl e)
        then have "y = (Inl e, s1)" using 1(2) False body cbo by auto
        moreover have "import_libs_loop X q v tbl (Some cb) L st = Some (Inl e, st1)"
          using False body' Inl by (subst import_libs_loop.simps) simp
        ultimately show ?thesis using s1 by simp
      next
        case (Inr L')
        then have "loop X q v tbl cbo L' s1 = Some y"
          using 1(2) False body cbo by simp
        then obtain y' where "import_libs_loop X q v tbl (Some cb) L' st1 = Some y'"
          "y = map_prod id without_callbacks y'"
          using 1(1) cbo ok s1 by blast
        moreover have "import_libs_loop X q v tbl (Some cb) L st =
            import_libs_loop X q v tbl (Some cb) L' st1"
          using False body' Inr by (subst import_libs_loop.simps) simp
        ultimately show ?thesis by simp
      qed
    qed
  qed
qed

lemma import_libs_loop_without_callback:
  assumes "\<forall>n. cb n = None"
  shows "import_libs_loop X q v tbl None L (without_callbacks st) =
           map_option (map_prod id without_callbacks)
             (import_libs_loop X q v tbl (Some cb) L st)"
proof (cases "import_libs_loop X q v tbl (Some cb) L st")
  case (Some y)
  then show ?thesis using import_libs_loop_drop_callback [OF Some] assms by simp
next
  case None
  have "import_libs_loop X q v tbl None L (without_callbacks st) = None"
  proof (rule ccontr)
    assume "import_libs_loop X q v tbl None L (without_callbacks st) \<noteq> None"
    then obtain y where y: "import_libs_loop X q v tbl None L (without_callbacks st) = Some y"
      by blast
    have "\<exists>y'. import_libs_loop X q v tbl (Some cb) L st = Some y'
        \<and> y = map_prod id without_callbacks y'"
      by (rule import_libs_loop_add_callback [OF y, rule_format, OF refl assms [rule_format] refl])
    then show False
      using None by simp
  qed
  then show ?thesis using None by simp
qed

lemma import_libs_without_callback:
  assumes "\<forall>n. cb n = None"
  shows "import_libs X q src tbl None (without_callbacks st) =
           map_option (map_prod id without_callbacks) (import_libs X q src tbl (Some cb) st)"
  using import_libs_loop_without_callback [OF assms]
  by (auto simp: import_libs_def split: sum.splits)

lemma import_methods_no_callback:
  assumes "import_methods X m src tbl None st = Some (r, st')"
  shows "callbacks_of (new_events st st') = []"
  using assms
proof (cases rule: import_methods_cases)
  case (header e)
  then show ?thesis by (simp add: new_events_def)
next
  case (preamble v L1 e)
  then show ?thesis by (simp add: new_events_def)
next
  case (callback v L1 imps L2 e)
  then show ?thesis by (simp add: invoke_callbacks_None)
next
  case (parse v L1 imps L2 st1)
  then show ?thesis by (simp add: invoke_callbacks_None new_events_def)
next
  case (submitted v L1 imps L2 st1 ds)
  then show ?thesis by (simp add: invoke_callbacks_None new_events_def)
qed

lemma import_libs_body_no_callback:
  assumes "import_libs_body X q v tbl None L st = Some (r, st')"
  shows "\<exists>new. events st' = events st @ new \<and> callbacks_of new = []"
  using assms
proof (cases rule: import_libs_body_cases)
  case (preamble e)
  then show ?thesis by simp
next
  case (callback imps L1 e)
  then show ?thesis by (simp add: invoke_callbacks_None)
next
  case (parse imps L1 st1 e)
  then show ?thesis by (simp add: invoke_callbacks_None)
next
  case (submitted imps L1 st1 cd L2 ct)
  then show ?thesis by (simp add: invoke_callbacks_None)
qed

lemma import_libs_loop_no_callback:
  assumes "import_libs_loop X q v tbl cbo L st = Some y"
  shows "cbo = None \<longrightarrow> (\<exists>new. events (snd y) = events st @ new \<and> callbacks_of new = [])"
  using assms
proof (induction rule: import_libs_loop.raw_induct [rotated 1, consumes 1])
  case (1 loop X q v tbl cbo L st y)
  show ?case
  proof
    assume cbo: "cbo = None"
    show "\<exists>new. events (snd y) = events st @ new \<and> callbacks_of new = []"
    proof (cases "L = []")
      case True
      then show ?thesis using 1(2) by auto
    next
      case False
      then obtain rb st1 where body: "import_libs_body X q v tbl None L st = Some (rb, st1)"
        using 1(2) cbo by (auto split: option.splits)
      then obtain new1 where n1: "events st1 = events st @ new1" "callbacks_of new1 = []"
        using import_libs_body_no_callback by blast
      show ?thesis
      proof (cases rb)
        case (Inl e)
        then have "snd y = st1" using 1(2) False body cbo by auto
        then show ?thesis using n1 by simp
      next
        case (Inr L')
        then have "loop X q v tbl cbo L' st1 = Some y"
          using 1(2) False body cbo by simp
        then obtain new2 where "events (snd y) = events st1 @ new2" "callbacks_of new2 = []"
          using 1(1) cbo by blast
        then have "events (snd y) = events st @ (new1 @ new2) \<and> callbacks_of (new1 @ new2) = []"
          using n1 by (simp add: callbacks_of_append)
        then show ?thesis by blast
      qed
    qed
  qed
qed

lemma import_libs_no_callback:
  assumes "import_libs X q src tbl None st = Some (r, st')"
  shows "callbacks_of (new_events st st') = []"
proof (cases "parseVersionNumber (Const_isIntegral X) (Const_asIntegral X) src")
  case (Inl e)
  then show ?thesis using assms by (auto simp: import_libs_def new_events_def)
next
  case (Inr p)
  obtain v L where "p = (v, L)" by (cases p)
  then have "import_libs_loop X q v tbl None L st = Some (r, st')"
    using assms Inr by (simp add: import_libs_def)
  then show ?thesis
    using import_libs_loop_no_callback by (fastforce simp: new_events_def)
qed

text \<open>
  Claim C9. Without a callback both drivers run as they do with a callback that returns
  normally: the same outcome and the same state once the invocations are taken out of
  the record of calls, and a run that does not return with one does not return with the
  other. A run without a callback records no invocation.
\<close>

theorem import_without_callback:
  "((\<forall>n. cb n = None) \<longrightarrow>
      import_methods X m src tbl None (without_callbacks st) =
        map_option (map_prod id without_callbacks) (import_methods X m src tbl (Some cb) st)
      \<and> import_libs X q src tbl None (without_callbacks st) =
          map_option (map_prod id without_callbacks) (import_libs X q src tbl (Some cb) st))
   \<and> (import_methods X m src tbl None st = Some (r, st') \<longrightarrow>
        callbacks_of (new_events st st') = [])
   \<and> (import_libs X q src tbl None st = Some (rb, stb) \<longrightarrow>
        callbacks_of (new_events st stb) = [])"
  using import_methods_without_callback [of cb X m src tbl st]
    import_libs_without_callback [of cb X q src tbl st]
    import_methods_no_callback [of X m src tbl st r st']
    import_libs_no_callback [of X q src tbl st rb stb]
  by blast

text \<open>C9 on \<^verbatim>\<open>import foo\<close> in front of a method, and in front of a class.\<close>

theorem import_without_callback_witness:
  "import_methods sample_collaborators 0
      (sample_header @ sample_import ''foo'' @ [Token TK_DEF ''f'']) [] None empty_state =
     Some (Inr (),
       \<lparr>events = [Define (ModuleUnit 0) [''f''] [0] (ModuleType 0)],
        heap = [SourceResolverObj (SourceResolver 1 [])]\<rparr>)
   \<and> import_methods sample_collaborators 0
      (sample_header @ sample_import ''foo'' @ [Token TK_DEF ''f''])
      [] (Some (\<lambda>n. None)) empty_state =
     Some (Inr (),
       \<lparr>events = [Callback ''foo'', Define (ModuleUnit 0) [''f''] [0] (ModuleType 0)],
        heap = [SourceResolverObj (SourceResolver 1 [])]\<rparr>)
   \<and> import_libs sample_collaborators ''__torch__''
        (sample_header @ sample_import ''foo'' @ [Token TK_CLASS_DEF ''A'']) [] None empty_state =
       Some (Inr (),
         \<lparr>events = [Create (ClassType [''__torch__'', ''A''] 1),
                    Define (FreshUnit 1) [] [] (OfClass (ClassType [''__torch__'', ''A''] 1))],
          heap = [SourceResolverObj (SourceResolver 1 []), CompilationUnitObj]\<rparr>)
   \<and> without_callbacks empty_state = empty_state"
  using import_without_callback
      [where cb = "\<lambda>n. None" and X = sample_collaborators and m = 0 and tbl = "[]"
        and st = empty_state and q = "''__torch__''"
        and src = "sample_header @ sample_import ''foo'' @ [Token TK_DEF ''f'']"
        and r = "Inr ()"
        and st' = "\<lparr>events = [Define (ModuleUnit 0) [''f''] [0] (ModuleType 0)],
                    heap = [SourceResolverObj (SourceResolver 1 [])]\<rparr>"
        and rb = "Inl AssertFailure" and stb = empty_state]
    import_without_callback
      [where cb = "\<lambda>n. None" and X = sample_collaborators and m = 0 and tbl = "[]"
        and st = empty_state and q = "''__torch__''"
        and src = "sample_header @ sample_import ''foo'' @ [Token TK_CLASS_DEF ''A'']"
        and r = "Inl AssertFailure" and st' = empty_state
        and rb = "Inr ()"
        and stb = "\<lparr>events = [Create (ClassType [''__torch__'', ''A''] 1),
                    Define (FreshUnit 1) [] [] (OfClass (ClassType [''__torch__'', ''A''] 1))],
          heap = [SourceResolverObj (SourceResolver 1 []), CompilationUnitObj]\<rparr>"]
  by (simp add: driver_eval without_callbacks_def)

end
